theory Spec2Isabelle
  imports Complex_Main "HOL-Library.AList" "HOL-Library.Sublist"
begin

section \<open>Slack emoji exporter: a shallow embedding of \<open>slack_emoji_exporter.py\<close>\<close>

text \<open>
  The script talks to two HTTP endpoints, the local file system, the clock and the
  terminal. Each of them is made explicit: what the outside world answers is a
  parameter of the model (an oracle function), what the script does to the world is
  recorded in an event trace and in a file-system map. Python's unbounded integers are
  \<open>nat\<close> (no value of the script is ever negative), strings are \<open>string\<close>,
  a \<open>dict\<close> is an association list in insertion order.
\<close>

subsection \<open>Failures, HTTP responses\<close>

text \<open>
  The exceptions the library calls of the script can raise, and the two ways a step can
  end the process: \<open>sys.exit(n)\<close> and an exception nothing catches.
\<close>

datatype exn =
    OSError | RequestException | JSONDecodeError | KeyError
  | ValueError | AttributeError | TypeError

datatype failure = SystemExit nat | Uncaught exn

text \<open>
  The decoded body of a Slack answer, as far as the script reads it: \<open>data.get("ok")\<close>
  (its truth value), \<open>data.get("error")\<close> and \<open>data["emoji"]\<close>; \<open>None\<close> is an absent key.
\<close>

record api_data =
  ok :: bool
  error :: "string option"
  emoji :: "(string \<times> string) list option"

text \<open>
  A \<open>requests.Response\<close>: \<open>json\<close> is \<open>None\<close> when \<open>response.json()\<close> raises (the body
  is not JSON); \<open>content\<close> is the body that \<open>iter_content\<close> streams.
\<close>

record response =
  status_code :: nat
  body_text :: string
  json :: "api_data option"
  content :: string

text \<open>\<open>Response.ok\<close> of the requests library: \<open>raise_for_status\<close> would not raise,
  that is, the status is not in 400..599.\<close>

definition response_ok :: "response \<Rightarrow> bool" where
  "response_ok r = (\<not> (400 \<le> status_code r \<and> status_code r < 600))"

subsection \<open>Terminal output and events\<close>

text \<open>Every \<open>print\<close> of the script, with the values its f-string interpolates.\<close>

datatype msg =
    ErrorFetching nat string
  | SlackApiError string
  | FoundCustom nat
  | ListSavedTo string
  | ErrorDownloadingStatus string nat
  | ErrorDownloadingExn string exn
  | ErrorLoadingList exn
  | Downloading nat string
  | Downloaded nat
  | UploadedOk string
  | RateLimitedApi string nat
  | ErrorUploadingApi string string
  | RateLimitedHttp string nat nat
  | ErrorUploadingHttp string nat string
  | RetryingIn nat
  | MaxRetriesReached string
  | FoundFiles nat string
  | Uploading string
  | UploadSummary nat nat

text \<open>The multipart request of \<open>upload_emoji\<close>: the URL, the cookie header, the token
  field, the name field and the path of the image that is opened for it.\<close>

record request =
  url :: string
  cookie :: string
  token :: string
  name :: string
  image :: string

datatype event =
    Print msg
  | Sleep nat
  | Get string
  | Post request
  | Pace real

subsection \<open>\<open>upload_emoji\<close>: the retry loop\<close>

definition max_retries :: nat where
  "max_retries = 5"

text \<open>
  The oracle \<open>post req k\<close> is what attempt number \<open>k\<close> (counted from 1) yields:
  \<open>Inl e\<close> when opening the file or \<open>session.post\<close> raises \<open>e\<close>, \<open>Inr r\<close> for the
  response \<open>r\<close>. The event \<open>Post req\<close> marks the start of an attempt (the file is
  opened, then the request is sent). The loop state is the pair \<open>attempts\<close>,
  \<open>backoff\<close> of the source; the trace is threaded through and returned.
\<close>

function upload_loop ::
  "(request \<Rightarrow> nat \<Rightarrow> exn + response) \<Rightarrow> request \<Rightarrow> nat \<Rightarrow> nat \<Rightarrow> event list
     \<Rightarrow> (failure + bool) \<times> event list" where
  "upload_loop post req attempts backoff tr =
     (if attempts < max_retries then
        (let attempts' = attempts + 1;
             tr1 = tr @ [Post req] in
         case post req attempts' of
           Inl e \<Rightarrow> (Inl (Uncaught e), tr1)
         | Inr r \<Rightarrow>
             if response_ok r then
               (case json r of
                  None \<Rightarrow> (Inl (Uncaught JSONDecodeError), tr1)
                | Some data \<Rightarrow>
                    if ok data then (Inr True, tr1 @ [Print (UploadedOk (name req))])
                    else
                      (let err = (case error data of None \<Rightarrow> ''Unknown error'' | Some e \<Rightarrow> e) in
                       if err = ''ratelimited'' then
                         upload_loop post req attempts' (backoff * 2)
                           (tr1 @ [Print (RateLimitedApi (name req) backoff), Sleep backoff])
                       else (Inr False, tr1 @ [Print (ErrorUploadingApi (name req) err)])))
             else if status_code r = 429 then
               upload_loop post req attempts' (backoff * 2)
                 (tr1 @ [Print (RateLimitedHttp (name req) (status_code r) backoff), Sleep backoff])
             else
               (let tr2 = tr1 @ [Print (ErrorUploadingHttp (name req) (status_code r) (body_text r))] in
                if attempts' < max_retries then
                  upload_loop post req attempts' (backoff * 2)
                    (tr2 @ [Print (RetryingIn backoff), Sleep backoff])
                else (Inr False, tr2 @ [Print (MaxRetriesReached (name req))])))
      else (Inr False, tr))"
  by pat_completeness auto
termination
  by (relation "measure (\<lambda>(post, req, attempts, backoff, tr). max_retries - attempts)") auto

declare upload_loop.simps [simp del]

definition emoji_add_request :: "string \<Rightarrow> string \<Rightarrow> string \<Rightarrow> string \<Rightarrow> string \<Rightarrow> request" where
  "emoji_add_request team_id cookie' token' name' file_path =
     \<lparr>url = ''https://'' @ team_id @ ''.slack.com/api/emoji.add'',
      cookie = cookie', token = token', name = name', image = file_path\<rparr>"

definition upload_emoji ::
  "(request \<Rightarrow> nat \<Rightarrow> exn + response) \<Rightarrow> string \<Rightarrow> string \<Rightarrow> string \<Rightarrow> string \<Rightarrow> string
     \<Rightarrow> event list \<Rightarrow> (failure + bool) \<times> event list" where
  "upload_emoji post team_id cookie' token' name' file_path tr =
     upload_loop post (emoji_add_request team_id cookie' token' name' file_path) 0 1 tr"

text \<open>The backoff sleeps a trace holds, in order, and the number of upload requests it holds.\<close>

fun sleeps :: "event list \<Rightarrow> nat list" where
  "sleeps [] = []"
| "sleeps (Sleep n # es) = n # sleeps es"
| "sleeps (e # es) = sleeps es"

fun posts :: "event list \<Rightarrow> nat" where
  "posts [] = 0"
| "posts (Post r # es) = Suc (posts es)"
| "posts (e # es) = posts es"

text \<open>
  What one attempt can yield, by the branch of the loop that handles it: the upload is
  accepted; the API answers \<open>ratelimited\<close>; the status is 429; the status is another
  error status; the API rejects the upload with another error code (an absent code reads
  \<open>Unknown error\<close>).
\<close>

definition api_ratelimited :: "exn + response \<Rightarrow> bool" where
  "api_ratelimited out =
     (case out of
        Inl e \<Rightarrow> False
      | Inr r \<Rightarrow> response_ok r \<and>
          (case json r of
             None \<Rightarrow> False
           | Some data \<Rightarrow> \<not> ok data \<and> error data = Some ''ratelimited''))"

definition http_429 :: "exn + response \<Rightarrow> bool" where
  "http_429 out = (case out of Inl e \<Rightarrow> False | Inr r \<Rightarrow> status_code r = 429)"

definition rate_limited :: "exn + response \<Rightarrow> bool" where
  "rate_limited out = (http_429 out \<or> api_ratelimited out)"

definition http_error :: "exn + response \<Rightarrow> bool" where
  "http_error out = (case out of Inl e \<Rightarrow> False | Inr r \<Rightarrow> \<not> response_ok r)"

definition retried :: "exn + response \<Rightarrow> bool" where
  "retried out = (rate_limited out \<or> http_error out)"

definition upload_accepted :: "exn + response \<Rightarrow> bool" where
  "upload_accepted out =
     (case out of
        Inl e \<Rightarrow> False
      | Inr r \<Rightarrow> response_ok r \<and> (case json r of None \<Rightarrow> False | Some data \<Rightarrow> ok data))"

definition api_error_code :: "api_data \<Rightarrow> string" where
  "api_error_code data = (case error data of None \<Rightarrow> ''Unknown error'' | Some e \<Rightarrow> e)"

definition api_rejected :: "exn + response \<Rightarrow> bool" where
  "api_rejected out =
     (case out of
        Inl e \<Rightarrow> False
      | Inr r \<Rightarrow> response_ok r \<and>
          (case json r of
             None \<Rightarrow> False
           | Some data \<Rightarrow> \<not> ok data \<and> api_error_code data \<noteq> ''ratelimited''))"

text \<open>Three servers, for the concrete runs below: one that always answers 429; one that
  answers 429 three times and then accepts; one that answers 429, then 503, then rejects
  the upload because the name is taken.\<close>

definition always_429 :: "request \<Rightarrow> nat \<Rightarrow> exn + response" where
  "always_429 req k = Inr \<lparr>status_code = 429, body_text = ''slow down'', json = None, content = []\<rparr>"

definition ok_on_fourth :: "request \<Rightarrow> nat \<Rightarrow> exn + response" where
  "ok_on_fourth req k =
     (if k < 4 then Inr \<lparr>status_code = 429, body_text = ''slow down'', json = None, content = []\<rparr>
      else Inr \<lparr>status_code = 200, body_text = ''{ok: true}'',
                json = Some \<lparr>ok = True, error = None, emoji = None\<rparr>, content = []\<rparr>)"

definition name_taken_on_third :: "request \<Rightarrow> nat \<Rightarrow> exn + response" where
  "name_taken_on_third req k =
     (if k = 1 then Inr \<lparr>status_code = 429, body_text = ''slow down'', json = None, content = []\<rparr>
      else if k = 2 then Inr \<lparr>status_code = 503, body_text = ''unavailable'', json = None, content = []\<rparr>
      else Inr \<lparr>status_code = 200, body_text = ''{ok: false, error: error_name_taken}'',
                json = Some \<lparr>ok = False, error = Some ''error_name_taken'', emoji = None\<rparr>,
                content = []\<rparr>)"

subsection \<open>Strings and paths: the library functions the script calls\<close>

text \<open>\<open>s.startswith(p)\<close>.\<close>

definition startswith :: "string \<Rightarrow> string \<Rightarrow> bool" where
  "startswith s p = (take (length p) s = p)"

text \<open>\<open>s.rfind(c)\<close> for a single character: the index of its last occurrence, or \<open>-1\<close>.\<close>

fun rfind_from :: "string \<Rightarrow> char \<Rightarrow> int \<Rightarrow> int \<Rightarrow> int" where
  "rfind_from [] c i found = found"
| "rfind_from (x # xs) c i found = rfind_from xs c (i + 1) (if x = c then i else found)"

definition rfind :: "string \<Rightarrow> char \<Rightarrow> int" where
  "rfind s c = rfind_from s c 0 (- 1)"

text \<open>
  \<open>os.path.splitext(p)[1]\<close> on a POSIX system, as \<open>genericpath._splitext\<close> computes it:
  the text from the last dot on, when that dot comes after the last slash and some
  character between the slash and the dot is not a dot; the empty string otherwise.
  \<open>non_dot_before\<close> is the \<open>while\<close> loop that skips leading dots.
\<close>

function non_dot_before :: "string \<Rightarrow> nat \<Rightarrow> nat \<Rightarrow> bool" where
  "non_dot_before p filenameIndex dotIndex =
     (if filenameIndex < dotIndex then
        (if take 1 (drop filenameIndex p) \<noteq> ''.'' then True
         else non_dot_before p (filenameIndex + 1) dotIndex)
      else False)"
  by pat_completeness auto
termination
  by (relation "measure (\<lambda>(p, filenameIndex, dotIndex). dotIndex - filenameIndex)") auto

declare non_dot_before.simps [simp del]

definition splitext_ext :: "string \<Rightarrow> string" where
  "splitext_ext p =
     (let sepIndex = rfind p (CHR ''/'');
          dotIndex = rfind p (CHR ''.'')
      in if dotIndex > sepIndex \<and> non_dot_before p (nat (sepIndex + 1)) (nat dotIndex)
         then drop (nat dotIndex) p else [])"

text \<open>\<open>os.path.join(a, b)\<close> on a POSIX system, for two arguments.\<close>

definition os_path_join :: "string \<Rightarrow> string \<Rightarrow> string" where
  "os_path_join a b =
     (if startswith b ''/'' then b
      else if a = [] \<or> last a = CHR ''/'' then a @ b
      else a @ ''/'' @ b)"

subsection \<open>The catalog file: \<open>json.dump\<close> with \<open>indent=2\<close>, and \<open>json.load\<close>\<close>

text \<open>
  A catalog is a \<open>dict\<close> from names to URLs. \<open>json.dump\<close> (with the default
  \<open>ensure_ascii\<close>) writes a string between double quotes, with \<open>"\<close> and \<open>\\<close>
  escaped by a backslash, backspace, form feed, newline, carriage return and tab as
  \<open>\b \f \n \r \t\<close>, and every other character outside the printable ASCII range
  (space to tilde) as \<open>\u\<close> and four lower-case hexadecimal digits. A \<open>char\<close> stands
  for the code point of the same number, so the strings of the model are the Python
  strings over the code points 0 to 255.
\<close>

definition hexdigit :: "nat \<Rightarrow> char" where
  "hexdigit n = (if n < 10 then char_of (48 + n) else char_of (87 + n))"

definition escape_char :: "char \<Rightarrow> string" where
  "escape_char c =
     (if c = CHR 0x22 then [CHR 0x5C, CHR 0x22]
      else if c = CHR 0x5C then [CHR 0x5C, CHR 0x5C]
      else if c = CHR 0x08 then [CHR 0x5C, CHR ''b'']
      else if c = CHR 0x0C then [CHR 0x5C, CHR ''f'']
      else if c = CHR 0x0A then [CHR 0x5C, CHR ''n'']
      else if c = CHR 0x0D then [CHR 0x5C, CHR ''r'']
      else if c = CHR 0x09 then [CHR 0x5C, CHR ''t'']
      else if 32 \<le> (of_char c :: nat) \<and> (of_char c :: nat) \<le> 126 then [c]
      else [CHR 0x5C, CHR ''u'', CHR ''0'', CHR ''0'',
            hexdigit (of_char c div 16), hexdigit (of_char c mod 16)])"

definition json_string :: "string \<Rightarrow> string" where
  "json_string s = CHR 0x22 # concat (map escape_char s) @ [CHR 0x22]"

definition json_item :: "string \<times> string \<Rightarrow> string" where
  "json_item kv = json_string (fst kv) @ '': '' @ json_string (snd kv)"

text \<open>The items of a non-empty object, each on a line of its own, indented by two spaces
  and separated by a comma.\<close>

fun json_items :: "(string \<times> string) list \<Rightarrow> string" where
  "json_items [] = []"
| "json_items [kv] = json_item kv"
| "json_items (kv # kvs) = json_item kv @ [CHR '','', CHR 0x0A] @ ''  '' @ json_items kvs"

definition json_dump :: "(string \<times> string) list \<Rightarrow> string" where
  "json_dump d =
     (if d = [] then ''{}''
      else ''{'' @ [CHR 0x0A] @ ''  '' @ json_items d @ [CHR 0x0A] @ ''}'')"

text \<open>
  \<open>json.load\<close>, on the documents that hold a catalog: one object whose values are
  strings. \<open>scanstring\<close> reads a string from just after its opening quote and returns it
  with the rest of the text. The result \<open>None\<close> says that the text holds no catalog of
  the model: the decoder raises (a raw control character, an unknown escape, an
  unterminated string, a missing colon), or it yields a value the parser has no grammar
  for (a value that is not a string, a \<open>\u\<close> escape above 255). Which of the two,
  \<open>load_emoji_list\<close> takes from the environment.
\<close>

definition hexval :: "char \<Rightarrow> nat option" where
  "hexval c =
     (let k = (of_char c :: nat) in
      if 48 \<le> k \<and> k \<le> 57 then Some (k - 48)
      else if 97 \<le> k \<and> k \<le> 102 then Some (k - 87)
      else if 65 \<le> k \<and> k \<le> 70 then Some (k - 55)
      else None)"

definition hex4 :: "char \<Rightarrow> char \<Rightarrow> char \<Rightarrow> char \<Rightarrow> nat option" where
  "hex4 a b c d =
     (case (hexval a, hexval b, hexval c, hexval d) of
        (Some w, Some x, Some y, Some z) \<Rightarrow> Some (((w * 16 + x) * 16 + y) * 16 + z)
      | _ \<Rightarrow> None)"

definition unescape :: "char \<Rightarrow> char option" where
  "unescape e =
     (if e = CHR 0x22 then Some (CHR 0x22)
      else if e = CHR 0x5C then Some (CHR 0x5C)
      else if e = CHR ''/'' then Some (CHR ''/'')
      else if e = CHR ''b'' then Some (CHR 0x08)
      else if e = CHR ''f'' then Some (CHR 0x0C)
      else if e = CHR ''n'' then Some (CHR 0x0A)
      else if e = CHR ''r'' then Some (CHR 0x0D)
      else if e = CHR ''t'' then Some (CHR 0x09)
      else None)"

definition cons_result :: "char \<Rightarrow> (string \<times> string) option \<Rightarrow> (string \<times> string) option" where
  "cons_result c res = (case res of None \<Rightarrow> None | Some (s, rest) \<Rightarrow> Some (c # s, rest))"

function scanstring :: "string \<Rightarrow> (string \<times> string) option" where
  "scanstring [] = None"
| "scanstring (c # cs) =
     (if c = CHR 0x22 then Some ([], cs)
      else if c = CHR 0x5C then
        (case cs of
           [] \<Rightarrow> None
         | e # cs1 \<Rightarrow>
             if e = CHR ''u'' then
               (case cs1 of
                  h1 # h2 # h3 # h4 # cs2 \<Rightarrow>
                    (case hex4 h1 h2 h3 h4 of
                       None \<Rightarrow> None
                     | Some n \<Rightarrow> if n < 256 then cons_result (char_of n) (scanstring cs2) else None)
                | _ \<Rightarrow> None)
             else
               (case unescape e of
                  None \<Rightarrow> None
                | Some ch \<Rightarrow> cons_result ch (scanstring cs1)))
      else if (of_char c :: nat) < 32 then None
      else cons_result c (scanstring cs))"
  by pat_completeness auto
termination
  by (relation "measure length") auto

definition is_ws :: "char \<Rightarrow> bool" where
  "is_ws c = (c = CHR '' '' \<or> c = CHR 0x09 \<or> c = CHR 0x0A \<or> c = CHR 0x0D)"

definition skip_ws :: "string \<Rightarrow> string" where
  "skip_ws s = dropWhile is_ws s"

text \<open>\<open>dict(pairs)\<close>: a later pair with a key already present replaces its value.\<close>

definition dict_of_pairs :: "(string \<times> string) list \<Rightarrow> (string \<times> string) list" where
  "dict_of_pairs pairs = fold (\<lambda>kv d. AList.update (fst kv) (snd kv) d) pairs []"

definition finish_object :: "(string \<times> string) list \<Rightarrow> string \<Rightarrow> (string \<times> string) list option" where
  "finish_object pairs rest = (if skip_ws rest = [] then Some (dict_of_pairs pairs) else None)"

lemma cons_result_shorter:
  "cons_result c res = Some (t, rest) \<Longrightarrow> \<exists>t'. res = Some (t', rest)"
  by (auto simp: cons_result_def split: option.splits)

lemma scanstring_shorter: "scanstring s = Some (t, rest) \<Longrightarrow> length rest < length s"
proof (induction s arbitrary: t rule: scanstring.induct)
  case 1
  then show ?case by simp
next
  case (2 c cs)
  show ?case
  proof (cases "c = CHR 0x22")
    case True
    with "2.prems" show ?thesis by simp
  next
    case quote: False
    show ?thesis
    proof (cases "c = CHR 0x5C")
      case False
      with quote "2.prems" have nc: "\<not> (of_char c :: nat) < 32"
        and "cons_result c (scanstring cs) = Some (t, rest)"
        by (auto split: if_splits)
      then obtain t' where "scanstring cs = Some (t', rest)"
        using cons_result_shorter by blast
      with "2.IH"(3) [OF quote False nc] show ?thesis by fastforce
    next
      case True
      show ?thesis
      proof (cases cs)
        case Nil
        with quote True "2.prems" show ?thesis by simp
      next
        case (Cons e cs1)
        show ?thesis
        proof (cases "e = CHR ''u''")
          case False
          with quote True Cons "2.prems" obtain ch where
            ch: "unescape e = Some ch" "cons_result ch (scanstring cs1) = Some (t, rest)"
            by (auto split: option.splits)
          then obtain t' where "scanstring cs1 = Some (t', rest)"
            using cons_result_shorter by blast
          with "2.IH"(2) [OF quote True Cons False ch(1)] Cons show ?thesis by fastforce
        next
          case u: True
          with quote True Cons "2.prems" obtain h1 h2 h3 h4 cs2 n where
            h: "cs1 = h1 # h2 # h3 # h4 # cs2" "hex4 h1 h2 h3 h4 = Some n" "n < 256"
              "cons_result (char_of n) (scanstring cs2) = Some (t, rest)"
            by (auto split: list.splits option.splits if_splits)
          then obtain t' where "scanstring cs2 = Some (t', rest)"
            using cons_result_shorter by blast
          with "2.IH"(1) [OF quote True Cons u h(1) refl refl refl h(2) h(3)] Cons h(1) show ?thesis
            by fastforce
        qed
      qed
    qed
  qed
qed

lemma skip_ws_length: "length (skip_ws s) \<le> length s"
  by (simp add: skip_ws_def length_dropWhile_le)

lemma skip_ws_Cons_shorter: "skip_ws s = c # rest \<Longrightarrow> length rest < length s"
  using skip_ws_length [of s] by simp

text \<open>
  \<open>members\<close> is the loop of the object decoder; it starts just after the opening quote
  of a key: the key, a colon, the value (a string), then \<open>}\<close> or a comma and the next
  key. White space is skipped where the decoder skips it.
\<close>

function members :: "string \<Rightarrow> (string \<times> string) list \<Rightarrow> (string \<times> string) list option" where
  "members s pairs =
     (case scanstring s of
        None \<Rightarrow> None
      | Some (key, s1) \<Rightarrow>
          (case skip_ws s1 of
             [] \<Rightarrow> None
           | c1 # s2 \<Rightarrow>
               if c1 \<noteq> CHR '':'' then None
               else
                 (case skip_ws s2 of
                    [] \<Rightarrow> None
                  | q # s3 \<Rightarrow>
                      if q \<noteq> CHR 0x22 then None
                      else
                        (case scanstring s3 of
                           None \<Rightarrow> None
                         | Some (val, s4) \<Rightarrow>
                             (case skip_ws s4 of
                                [] \<Rightarrow> None
                              | c2 # s5 \<Rightarrow>
                                  if c2 = CHR ''}'' then finish_object (pairs @ [(key, val)]) s5
                                  else if c2 = CHR '','' then
                                    (case skip_ws s5 of
                                       [] \<Rightarrow> None
                                     | q2 # s6 \<Rightarrow>
                                         if q2 = CHR 0x22 then members s6 (pairs @ [(key, val)])
                                         else None)
                                  else None)))))"
  by pat_completeness auto
termination
proof (relation "measure (\<lambda>(s, pairs). length s)", simp, goal_cases)
  case (1 s pairs x2 key s1 c1 s2 q s3 x2a val s4 c2 s5 q2 s6)
  have "length s1 < length s"
    using 1 scanstring_shorter [of s key s1] by simp
  moreover have "length s2 < length s1"
    using 1 skip_ws_Cons_shorter [of s1 c1 s2] by simp
  moreover have "length s3 < length s2"
    using 1 skip_ws_Cons_shorter [of s2 q s3] by simp
  moreover have "length s4 < length s3"
    using 1 scanstring_shorter [of s3 val s4] by simp
  moreover have "length s5 < length s4"
    using 1 skip_ws_Cons_shorter [of s4 c2 s5] by simp
  moreover have "length s6 < length s5"
    using 1 skip_ws_Cons_shorter [of s5 q2 s6] by simp
  ultimately show ?case by simp
qed

declare members.simps [simp del]

definition json_load :: "string \<Rightarrow> (string \<times> string) list option" where
  "json_load doc =
     (case skip_ws doc of
        [] \<Rightarrow> None
      | c # s1 \<Rightarrow>
          if c \<noteq> CHR ''{'' then None
          else
            (case skip_ws s1 of
               [] \<Rightarrow> None
             | c' # s2 \<Rightarrow>
                 if c' = CHR ''}'' then finish_object [] s2
                 else if c' = CHR 0x22 then members s2 []
                 else None))"

subsection \<open>The world of \<open>list\<close> and \<open>download\<close>\<close>

text \<open>
  A value of a loaded mapping is a string or something else, and what \<open>json.load\<close>
  yields is a mapping, a value that has a length but no \<open>items\<close> (a list, a string), or
  a value without a length (a number, \<open>true\<close>, \<open>false\<close>, \<open>null\<close>), unless it raises.
\<close>

datatype jvalue = Str string | NotStr

datatype loaded =
    LoadRaises exn
  | Mapping "(string \<times> jvalue) list"
  | Sized nat
  | Unsized

text \<open>
  What the outside answers: \<open>http_get url bearer\<close> is the result of \<open>requests.get\<close>
  (\<open>Inl\<close> when it raises), \<open>can_write path\<close> tells whether opening and writing the
  file succeeds (it raises \<open>OSError\<close> otherwise; the partial file that a failed write
  can leave is not recorded), \<open>can_mkdir\<close> the same for \<open>os.makedirs\<close>, and
  \<open>url_path url\<close> is \<open>urlparse(url).path\<close>, or \<open>None\<close> when \<open>urlparse\<close> raises
  \<open>ValueError\<close> (as it does on \<open>http://[bad/a.png\<close>). \<open>json_other doc\<close> is what
  \<open>json.load\<close> does with a document that does not hold a catalog. What the script
  does: the trace of its events and the files it has written.
\<close>

record env =
  http_get :: "string \<Rightarrow> string option \<Rightarrow> exn + response"
  can_write :: "string \<Rightarrow> bool"
  can_mkdir :: "string \<Rightarrow> bool"
  url_path :: "string \<Rightarrow> string option"
  json_other :: "string \<Rightarrow> loaded"

record world =
  trace :: "event list"
  files :: "string \<rightharpoonup> string"

definition emit :: "event \<Rightarrow> world \<Rightarrow> world" where
  "emit e w = w\<lparr>trace := trace w @ [e]\<rparr>"

definition write_file :: "string \<Rightarrow> string \<Rightarrow> world \<Rightarrow> world" where
  "write_file path doc w = w\<lparr>files := (files w)(path \<mapsto> doc)\<rparr>"

subsection \<open>\<open>list_emojis\<close>\<close>

text \<open>The loop that copies every entry that is not an alias into \<open>custom_emojis\<close>.\<close>

fun filter_aliases :: "(string \<times> string) list \<Rightarrow> (string \<times> string) list \<Rightarrow> (string \<times> string) list" where
  "filter_aliases [] custom_emojis = custom_emojis"
| "filter_aliases ((name', url') # rest) custom_emojis =
     filter_aliases rest
       (if \<not> startswith url' ''alias:'' then AList.update name' url' custom_emojis
        else custom_emojis)"

definition list_emojis ::
  "env \<Rightarrow> string \<Rightarrow> string \<Rightarrow> world \<Rightarrow> (failure + (string \<times> string) list) \<times> world" where
  "list_emojis env token' output_file w =
     (let url' = ''https://slack.com/api/emoji.list'';
          w1 = emit (Get url') w
      in case http_get env url' (Some token') of
           Inl e \<Rightarrow> (Inl (Uncaught e), w1)
         | Inr r \<Rightarrow>
             if \<not> response_ok r then
               (Inl (SystemExit 1), emit (Print (ErrorFetching (status_code r) (body_text r))) w1)
             else
               (case json r of
                  None \<Rightarrow> (Inl (Uncaught JSONDecodeError), w1)
                | Some data \<Rightarrow>
                    if \<not> ok data then
                      (Inl (SystemExit 1), emit (Print (SlackApiError (api_error_code data))) w1)
                    else
                      (case emoji data of
                         None \<Rightarrow> (Inl (Uncaught KeyError), w1)
                       | Some items \<Rightarrow>
                           (let custom_emojis = filter_aliases items [] in
                            if \<not> can_write env output_file then (Inl (Uncaught OSError), w1)
                            else
                              (Inr custom_emojis,
                               emit (Print (ListSavedTo output_file))
                                 (emit (Print (FoundCustom (length custom_emojis)))
                                    (write_file output_file (json_dump custom_emojis) w1)))))))"

subsection \<open>\<open>download_emoji\<close> and \<open>download_emojis\<close>\<close>

text \<open>
  \<open>download_emoji\<close> returns a pair or \<open>None\<close>, or raises: \<open>url.startswith\<close> raises
  \<open>AttributeError\<close> when the value is not a string, and \<open>urlparse\<close> can raise
  \<open>ValueError\<close>; both happen before the \<open>try\<close>, so nothing catches them.
\<close>

definition download_emoji ::
  "env \<Rightarrow> string \<Rightarrow> jvalue \<Rightarrow> string \<Rightarrow> world \<Rightarrow> (exn + (string \<times> string) option) \<times> world" where
  "download_emoji env name' url' output_dir w =
     (case url' of
        NotStr \<Rightarrow> (Inl AttributeError, w)
      | Str u \<Rightarrow>
          if startswith u ''alias:'' then (Inr None, w)
          else
            (case url_path env u of
               None \<Rightarrow> (Inl ValueError, w)
             | Some path \<Rightarrow>
                 (let extension = splitext_ext path;
                      extension = (if extension = [] then ''.png'' else extension);
                      output_file = os_path_join output_dir (name' @ extension);
                      w1 = emit (Get u) w
                  in case http_get env u None of
                       Inl e \<Rightarrow> (Inr None, emit (Print (ErrorDownloadingExn name' e)) w1)
                     | Inr r \<Rightarrow>
                         if response_ok r then
                           (if can_write env output_file then
                              (Inr (Some (name', output_file)),
                               write_file output_file (content r) w1)
                            else (Inr None, emit (Print (ErrorDownloadingExn name' OSError)) w1))
                         else
                           (Inr None,
                            emit (Print (ErrorDownloadingStatus name' (status_code r))) w1))))"

text \<open>
  The argument \<open>emoji_list\<close> is a path (a \<open>str\<close>) or a mapping. A file is decoded by
  \<open>json_load\<close> when it holds a catalog, and by the environment otherwise; a missing
  file makes \<open>open\<close> raise.
\<close>

datatype emoji_list = ListFile string | ListMapping "(string \<times> jvalue) list"

definition load_emoji_list :: "env \<Rightarrow> world \<Rightarrow> emoji_list \<Rightarrow> loaded" where
  "load_emoji_list env w emoji_list' =
     (case emoji_list' of
        ListMapping d \<Rightarrow> Mapping d
      | ListFile path \<Rightarrow>
          (case files w path of
             None \<Rightarrow> LoadRaises OSError
           | Some doc \<Rightarrow>
               (case json_load doc of
                  None \<Rightarrow> json_other env doc
                | Some d \<Rightarrow> Mapping (map (\<lambda>kv. (fst kv, Str (snd kv))) d))))"

text \<open>
  The thread pool. One task is submitted per entry, in the order of the mapping; task
  \<open>i\<close> stores its result, or the exception it raised, in future \<open>i\<close>. The pool runs
  every task exactly once, in an order that the scheduler picks: \<open>sched\<close> is that pick,
  and \<open>exec_order\<close> makes an order of all the tasks out of any list (the tasks it
  names, once each, then the others in submission order), so every order of completion
  is the \<open>exec_order\<close> of some list. A task is run as one step. A future is \<open>None\<close>
  until its task has run. Leaving the \<open>with\<close> block waits for every task, also when an
  exception leaves it.
\<close>

definition exec_order :: "nat \<Rightarrow> nat list \<Rightarrow> nat list" where
  "exec_order n sched =
     remdups (filter (\<lambda>i. i < n) sched) @ filter (\<lambda>i. i \<notin> set sched) [0..<n]"

definition run_task ::
  "env \<Rightarrow> (string \<times> jvalue) list \<Rightarrow> string \<Rightarrow> nat
     \<Rightarrow> (exn + (string \<times> string) option) option list \<times> world
     \<Rightarrow> (exn + (string \<times> string) option) option list \<times> world" where
  "run_task env catalog output_dir i st =
     (let (result, w') = download_emoji env (fst (catalog ! i)) (snd (catalog ! i)) output_dir (snd st)
      in ((fst st)[i := Some result], w'))"

definition run_pool ::
  "env \<Rightarrow> (string \<times> jvalue) list \<Rightarrow> string \<Rightarrow> nat list
     \<Rightarrow> (exn + (string \<times> string) option) option list \<times> world
     \<Rightarrow> (exn + (string \<times> string) option) option list \<times> world" where
  "run_pool env catalog output_dir order st = fold (run_task env catalog output_dir) order st"

text \<open>The loop that joins the futures in submission order: \<open>future.result()\<close> raises the
  exception of its task again, and a result that is not \<open>None\<close> is appended.\<close>

fun join_futures ::
  "(exn + (string \<times> string) option) option list \<Rightarrow> (string \<times> string) list
     \<Rightarrow> exn + (string \<times> string) list" where
  "join_futures [] downloaded = Inr downloaded"
| "join_futures (future # futures) downloaded =
     (case future of
        Some (Inl e) \<Rightarrow> Inl e
      | Some (Inr (Some result)) \<Rightarrow> join_futures futures (downloaded @ [result])
      | _ \<Rightarrow> join_futures futures downloaded)"

text \<open>
  \<open>len(emoji_list)\<close> raises \<open>TypeError\<close> on a value without a length, before anything
  is printed, and \<open>emoji_list.items()\<close> raises \<open>AttributeError\<close> on a list or a string.
\<close>

definition download_emojis ::
  "env \<Rightarrow> emoji_list \<Rightarrow> string \<Rightarrow> nat list \<Rightarrow> world
     \<Rightarrow> (failure + (string \<times> string) list) \<times> world" where
  "download_emojis env emoji_list' output_dir sched w =
     (if \<not> can_mkdir env output_dir then (Inl (Uncaught OSError), w)
      else
        (case load_emoji_list env w emoji_list' of
           LoadRaises e \<Rightarrow> (Inl (SystemExit 1), emit (Print (ErrorLoadingList e)) w)
         | Unsized \<Rightarrow> (Inl (Uncaught TypeError), w)
         | Sized n \<Rightarrow> (Inl (Uncaught AttributeError), emit (Print (Downloading n output_dir)) w)
         | Mapping catalog \<Rightarrow>
             (let w1 = emit (Print (Downloading (length catalog) output_dir)) w;
                  st = run_pool env catalog output_dir (exec_order (length catalog) sched)
                         (replicate (length catalog) None, w1)
              in case join_futures (fst st) [] of
                   Inl e \<Rightarrow> (Inl (Uncaught e), snd st)
                 | Inr downloaded \<Rightarrow>
                     (Inr downloaded, emit (Print (Downloaded (length downloaded))) (snd st)))))"

subsection \<open>\<open>upload_emojis\<close>\<close>

text \<open>
  \<open>Path(emoji_dir).glob(pattern)\<close> lists the entries of the directory whose names match
  the pattern; on a POSIX system the match is case-sensitive. \<open>fnmatch\<close> is the match
  for patterns made of \<open>*\<close>, \<open>?\<close> and literal characters, which the four patterns of
  the script are. \<open>listdir\<close> gives the names in the directory.
\<close>

fun fnmatch :: "string \<Rightarrow> string \<Rightarrow> bool" where
  "fnmatch [] s = (s = [])"
| "fnmatch (p # ps) [] = (p = CHR ''*'' \<and> fnmatch ps [])"
| "fnmatch (p # ps) (c # cs) =
     (if p = CHR ''*'' then fnmatch ps (c # cs) \<or> fnmatch (p # ps) cs
      else (p = CHR ''?'' \<or> p = c) \<and> fnmatch ps cs)"

definition glob :: "string list \<Rightarrow> string \<Rightarrow> string list" where
  "glob names pattern = filter (fnmatch pattern) names"

definition image_patterns :: "string list" where
  "image_patterns = [''*.png'', ''*.jpg'', ''*.jpeg'', ''*.gif'']"

definition emoji_files :: "string list \<Rightarrow> string list" where
  "emoji_files names = concat (map (glob names) image_patterns)"

text \<open>\<open>PurePath.stem\<close>: the name up to its last dot, when that dot is neither the first
  nor the last character.\<close>

definition stem :: "string \<Rightarrow> string" where
  "stem n =
     (let i = rfind n (CHR ''.'') in
      if 0 < i \<and> i < int (length n) - 1 then take (nat i) n else n)"

text \<open>
  The loop over the files. \<open>jitter i\<close> is the value \<open>random.uniform(0.5, 2.0)\<close> returns
  at the \<open>i\<close>-th file. An exception of \<open>upload_emoji\<close> is not caught and ends the loop.
\<close>

fun upload_files ::
  "(request \<Rightarrow> nat \<Rightarrow> exn + response) \<Rightarrow> (nat \<Rightarrow> real) \<Rightarrow> string \<Rightarrow> string \<Rightarrow> string \<Rightarrow> string
     \<Rightarrow> string list \<Rightarrow> nat \<Rightarrow> nat \<Rightarrow> nat \<Rightarrow> event list \<Rightarrow> (failure + nat \<times> nat) \<times> event list" where
  "upload_files post jitter team_id cookie' token' emoji_dir [] i uploaded failed tr =
     (Inr (uploaded, failed), tr)"
| "upload_files post jitter team_id cookie' token' emoji_dir (file # rest) i uploaded failed tr =
     (let name' = stem file in
      case upload_emoji post team_id cookie' token' name' (os_path_join emoji_dir file)
             (tr @ [Print (Uploading name')]) of
        (Inl e, tr') \<Rightarrow> (Inl e, tr')
      | (Inr b, tr') \<Rightarrow>
          upload_files post jitter team_id cookie' token' emoji_dir rest (i + 1)
            (if b then uploaded + 1 else uploaded) (if b then failed else failed + 1)
            (tr' @ [Pace (1 + jitter i)]))"

definition upload_emojis ::
  "(request \<Rightarrow> nat \<Rightarrow> exn + response) \<Rightarrow> (string \<Rightarrow> string list) \<Rightarrow> (nat \<Rightarrow> real)
     \<Rightarrow> string \<Rightarrow> string \<Rightarrow> string \<Rightarrow> string \<Rightarrow> event list \<Rightarrow> (failure + nat) \<times> event list" where
  "upload_emojis post listdir jitter team_id cookie' token' emoji_dir tr =
     (let files' = emoji_files (listdir emoji_dir) in
      case upload_files post jitter team_id cookie' token' emoji_dir files' 0 0 0
             (tr @ [Print (FoundFiles (length files') emoji_dir)]) of
        (Inl e, tr') \<Rightarrow> (Inl e, tr')
      | (Inr (uploaded, failed), tr') \<Rightarrow>
          (Inr uploaded, tr' @ [Print (UploadSummary uploaded failed)]))"

subsection \<open>Definitions for the claims about \<open>list\<close> and \<open>download\<close>\<close>

text \<open>An entry whose value does not begin with \<open>alias:\<close>.\<close>

definition not_alias :: "string \<times> string \<Rightarrow> bool" where
  "not_alias kv = (\<not> startswith (snd kv) ''alias:'')"

text \<open>A directory that answers with one image and one alias, and the world before
  anything has happened.\<close>

definition directory_env :: env where
  "directory_env =
     \<lparr>http_get = (\<lambda>u b. Inr \<lparr>status_code = 200, body_text = ''ok'',
         json = Some \<lparr>ok = True, error = None,
           emoji = Some [(''smile'', ''https://x/e1.png''), (''party'', ''alias:smile'')]\<rparr>,
         content = []\<rparr>),
      can_write = (\<lambda>p. True), can_mkdir = (\<lambda>p. True),
      url_path = (\<lambda>u. Some ''/e1.png''), json_other = (\<lambda>doc. LoadRaises JSONDecodeError)\<rparr>"

definition empty_world :: world where
  "empty_world = \<lparr>trace = [], files = Map.empty\<rparr>"

text \<open>The two conditions of the directory claim, on what \<open>requests.get\<close> yields: the
  status is an error status (\<open>http_error\<close>), or a decoded body has a false \<open>ok\<close> flag.\<close>

definition success_flag_false :: "exn + response \<Rightarrow> bool" where
  "success_flag_false out =
     (case out of
        Inl e \<Rightarrow> False
      | Inr r \<Rightarrow> (case json r of None \<Rightarrow> False | Some data \<Rightarrow> \<not> ok data))"

definition list_url :: string where
  "list_url = ''https://slack.com/api/emoji.list''"

text \<open>A directory behind a proxy that answers 200 with a page that is not JSON, and one
  that answers 500.\<close>

definition html_env :: env where
  "html_env =
     \<lparr>http_get = (\<lambda>u b. Inr \<lparr>status_code = 200, body_text = ''<html>login</html>'',
         json = None, content = []\<rparr>),
      can_write = (\<lambda>p. True), can_mkdir = (\<lambda>p. True),
      url_path = (\<lambda>u. Some []), json_other = (\<lambda>doc. LoadRaises JSONDecodeError)\<rparr>"

definition broken_env :: env where
  "broken_env =
     \<lparr>http_get = (\<lambda>u b. Inr \<lparr>status_code = 500, body_text = ''oops'',
         json = None, content = []\<rparr>),
      can_write = (\<lambda>p. True), can_mkdir = (\<lambda>p. True),
      url_path = (\<lambda>u. Some []), json_other = (\<lambda>doc. LoadRaises JSONDecodeError)\<rparr>"

subsection \<open>Definitions for the claim about the downloaded file\<close>

text \<open>The last segment of a path: what follows its last slash (the whole path when it
  has none).\<close>

definition last_segment :: "string \<Rightarrow> string" where
  "last_segment p = rev (takeWhile (\<lambda>c. c \<noteq> CHR ''/'') (rev p))"

subsection \<open>Definitions for the claim about the directory scan\<close>

text \<open>
  The four extensions, and a name whose extension is one of them up to the case of its
  letters without being one of them: \<open>smile.PNG\<close>, \<open>a.Jpg\<close>.
\<close>

definition lower :: "char \<Rightarrow> char" where
  "lower c =
     (let k = (of_char c :: nat) in if 65 \<le> k \<and> k \<le> 90 then char_of (k + 32) else c)"

definition image_exts :: "string list" where
  "image_exts = [''png'', ''jpg'', ''jpeg'', ''gif'']"

definition case_variant :: "string \<Rightarrow> bool" where
  "case_variant n =
     (\<exists>base e. n = base @ CHR ''.'' # e \<and> map lower e \<in> set image_exts \<and> e \<notin> set image_exts)"

text \<open>A server that accepts every upload, and a directory with three entries.\<close>

definition accept_all :: "request \<Rightarrow> nat \<Rightarrow> exn + response" where
  "accept_all req k =
     Inr \<lparr>status_code = 200, body_text = [],
          json = Some \<lparr>ok = True, error = None, emoji = None\<rparr>, content = []\<rparr>"

definition mixed_dir :: "string \<Rightarrow> string list" where
  "mixed_dir d = [''smile.PNG'', ''party.gif'', ''notes.txt'']"

subsection \<open>Definitions for the claims about \<open>download_emojis\<close>\<close>

text \<open>
  The claims, in terms of the environment alone. \<open>target_file\<close> is the file an entry
  is saved as. An entry is an image entry when its value is a string that is no alias
  and that \<open>urlparse\<close> accepts. An image entry fails to download when the request
  raises, when the status is not OK, or when the file cannot be written;
  \<open>failure_msg\<close> is the line printed for it. \<open>saved\<close> is the pair expected for an
  entry: the name and the file of an image entry that does not fail.
\<close>

definition target_file :: "string \<Rightarrow> string \<Rightarrow> string \<Rightarrow> string" where
  "target_file output_dir name' path =
     os_path_join output_dir
       (name' @ (if splitext_ext path = [] then ''.png'' else splitext_ext path))"

definition image_entry :: "env \<Rightarrow> string \<times> jvalue \<Rightarrow> bool" where
  "image_entry env kv =
     (case snd kv of
        NotStr \<Rightarrow> False
      | Str u \<Rightarrow> \<not> startswith u ''alias:'' \<and> url_path env u \<noteq> None)"

definition download_fails :: "env \<Rightarrow> string \<Rightarrow> string \<times> jvalue \<Rightarrow> bool" where
  "download_fails env output_dir kv =
     (case snd kv of
        NotStr \<Rightarrow> False
      | Str u \<Rightarrow>
          \<not> startswith u ''alias:'' \<and>
          (case url_path env u of
             None \<Rightarrow> False
           | Some path \<Rightarrow>
               (case http_get env u None of
                  Inl e \<Rightarrow> True
                | Inr r \<Rightarrow>
                    \<not> response_ok r \<or> \<not> can_write env (target_file output_dir (fst kv) path))))"


definition saved :: "env \<Rightarrow> string \<Rightarrow> string \<times> jvalue \<Rightarrow> (string \<times> string) option" where
  "saved env output_dir kv =
     (case snd kv of
        NotStr \<Rightarrow> None
      | Str u \<Rightarrow>
          (case url_path env u of
             None \<Rightarrow> None
           | Some path \<Rightarrow>
               if image_entry env kv \<and> \<not> download_fails env output_dir kv
               then Some (fst kv, target_file output_dir (fst kv) path) else None))"

text \<open>The exception that the task of an entry raises, if it raises one, and the first
  of these in the order of the catalog.\<close>

definition task_raises :: "env \<Rightarrow> string \<times> jvalue \<Rightarrow> exn option" where
  "task_raises env kv =
     (case snd kv of
        NotStr \<Rightarrow> Some AttributeError
      | Str u \<Rightarrow>
          if startswith u ''alias:'' then None
          else (case url_path env u of None \<Rightarrow> Some ValueError | Some path \<Rightarrow> None))"

fun first_raised :: "exn option list \<Rightarrow> exn option" where
  "first_raised [] = None"
| "first_raised (None # es) = first_raised es"
| "first_raised (Some e # es) = Some e"



text \<open>
  A source of three images of which the second answers 404, and a catalog of them. The
  schedule \<open>[2, 0, 1]\<close> completes the third download first. In \<open>bad_catalog\<close> the URL
  of the second entry is one that \<open>urlparse\<close> rejects.
\<close>

definition flaky_env :: env where
  "flaky_env =
     \<lparr>http_get = (\<lambda>u b.
         if u = ''https://x/b.gif'' then
           Inr \<lparr>status_code = 404, body_text = ''gone'', json = None, content = []\<rparr>
         else Inr \<lparr>status_code = 200, body_text = [], json = None, content = ''GIF89a''\<rparr>),
      can_write = (\<lambda>p. True), can_mkdir = (\<lambda>p. True),
      url_path = (\<lambda>u. if u = ''http://[bad/b.png'' then None else Some (drop 9 u)),
      json_other = (\<lambda>doc. LoadRaises JSONDecodeError)\<rparr>"

definition three_emojis :: "(string \<times> jvalue) list" where
  "three_emojis =
     [(''a'', Str ''https://x/a.png''), (''b'', Str ''https://x/b.gif''),
      (''c'', Str ''https://x/c.jpg'')]"

definition bad_catalog :: "(string \<times> jvalue) list" where
  "bad_catalog = [(''a'', Str ''https://x/a.png''), (''b'', Str ''http://[bad/b.png'')]"

text \<open>A source whose image URLs have no suffix.\<close>

definition edge_env :: env where
  "edge_env =
     \<lparr>http_get = (\<lambda>u b. Inr \<lparr>status_code = 200, body_text = [], json = None, content = ''PNG''\<rparr>),
      can_write = (\<lambda>p. True), can_mkdir = (\<lambda>p. True),
      url_path = (\<lambda>u. Some ''/T0/party/image''),
      json_other = (\<lambda>doc. LoadRaises JSONDecodeError)\<rparr>"

subsection \<open>The retry loop, step by step\<close>

lemma sleeps_append: "sleeps (xs @ ys) = sleeps xs @ sleeps ys"
  by (induction xs rule: sleeps.induct) auto

lemma posts_append: "posts (xs @ ys) = posts xs + posts ys"
  by (induction xs rule: posts.induct) auto

lemma http_429_not_ok: "status_code r = 429 \<Longrightarrow> \<not> response_ok r"
  by (simp add: response_ok_def)

lemma upload_loop_rate_limited:
  assumes "attempts < max_retries" and "rate_limited (post req (Suc attempts))"
  shows "\<exists>ms. upload_loop post req attempts backoff tr =
           upload_loop post req (Suc attempts) (backoff * 2) (tr @ ms)
         \<and> sleeps ms = [backoff] \<and> posts ms = 1"
proof (cases "post req (Suc attempts)")
  case (Inl e)
  with assms(2) show ?thesis
    by (simp add: rate_limited_def http_429_def api_ratelimited_def)
next
  case (Inr r)
  show ?thesis
  proof (cases "status_code r = 429")
    case True
    then have "upload_loop post req attempts backoff tr =
        upload_loop post req (Suc attempts) (backoff * 2)
          (tr @ [Post req, Print (RateLimitedHttp (name req) (status_code r) backoff), Sleep backoff])"
      using assms(1) Inr http_429_not_ok [OF True]
      by (subst upload_loop.simps) simp
    then show ?thesis by (intro exI conjI, assumption) simp_all
  next
    case False
    with assms(2) Inr obtain data where d: "response_ok r" "json r = Some data" "\<not> ok data"
        "error data = Some ''ratelimited''"
      by (auto simp: rate_limited_def http_429_def api_ratelimited_def split: option.splits)
    then have "upload_loop post req attempts backoff tr =
        upload_loop post req (Suc attempts) (backoff * 2)
          (tr @ [Post req, Print (RateLimitedApi (name req) backoff), Sleep backoff])"
      using assms(1) Inr
      by (subst upload_loop.simps) simp
    then show ?thesis by (intro exI conjI, assumption) simp_all
  qed
qed

lemma upload_loop_retried:
  assumes "Suc attempts < max_retries" and "retried (post req (Suc attempts))"
  shows "\<exists>ms. upload_loop post req attempts backoff tr =
           upload_loop post req (Suc attempts) (backoff * 2) (tr @ ms)
         \<and> sleeps ms = [backoff] \<and> posts ms = 1"
proof (cases "rate_limited (post req (Suc attempts))")
  case True
  with assms(1) show ?thesis
    using upload_loop_rate_limited [of attempts post req backoff tr] by simp
next
  case False
  with assms(2) obtain r where r: "post req (Suc attempts) = Inr r" "\<not> response_ok r"
      "status_code r \<noteq> 429"
    by (auto simp: retried_def http_error_def rate_limited_def http_429_def split: sum.splits)
  then have "upload_loop post req attempts backoff tr =
      upload_loop post req (Suc attempts) (backoff * 2)
        (tr @ [Post req, Print (ErrorUploadingHttp (name req) (status_code r) (body_text r)),
               Print (RetryingIn backoff), Sleep backoff])"
    using assms(1)
    by (subst upload_loop.simps) simp
  then show ?thesis by (intro exI conjI, assumption) simp_all
qed

lemma upload_loop_retries:
  assumes "attempts + n < max_retries"
    and "\<forall>j. attempts < j \<and> j \<le> attempts + n \<longrightarrow> retried (post req j)"
  shows "\<exists>ms. upload_loop post req attempts backoff tr =
           upload_loop post req (attempts + n) (backoff * 2 ^ n) (tr @ ms)
         \<and> sleeps ms = map (\<lambda>i. backoff * 2 ^ i) [0..<n] \<and> posts ms = n"
  using assms
proof (induction n arbitrary: attempts backoff tr)
  case 0
  show ?case by (intro exI [of _ "[]"]) simp
next
  case (Suc n)
  from Suc.prems have a: "Suc attempts < max_retries" and b: "retried (post req (Suc attempts))"
    by auto
  from a b upload_loop_retried [where attempts = attempts and post = post and req = req
      and backoff = backoff and tr = tr] obtain ms1 where
    m1: "upload_loop post req attempts backoff tr =
           upload_loop post req (Suc attempts) (backoff * 2) (tr @ ms1)"
       "sleeps ms1 = [backoff]" "posts ms1 = 1"
    by blast
  from Suc.prems have "Suc attempts + n < max_retries"
    and "\<forall>j. Suc attempts < j \<and> j \<le> Suc attempts + n \<longrightarrow> retried (post req j)"
    by auto
  from Suc.IH [OF this, of "backoff * 2" "tr @ ms1"] obtain ms2 where
    m2: "upload_loop post req (Suc attempts) (backoff * 2) (tr @ ms1) =
           upload_loop post req (Suc attempts + n) (backoff * 2 * 2 ^ n) ((tr @ ms1) @ ms2)"
       "sleeps ms2 = map (\<lambda>i. backoff * 2 * 2 ^ i) [0..<n]" "posts ms2 = n"
    by blast
  have "map (\<lambda>i. backoff * 2 ^ i) [0..<Suc n] = backoff # map (\<lambda>i. backoff * 2 * 2 ^ i) [0..<n]"
    by (simp add: upt_conv_Cons map_Suc_upt [symmetric] del: upt_Suc)
  with m1 m2 show ?case
    by (intro exI [of _ "ms1 @ ms2"]) (simp add: sleeps_append posts_append mult.assoc)
qed

lemma upload_loop_exhausted: "upload_loop post req max_retries backoff tr = (Inr False, tr)"
  by (subst upload_loop.simps) simp

lemma upload_loop_accepted:
  assumes "attempts < max_retries" and "upload_accepted (post req (Suc attempts))"
  shows "upload_loop post req attempts backoff tr =
           (Inr True, tr @ [Post req, Print (UploadedOk (name req))])"
  using assms
  by (subst upload_loop.simps) (auto simp: upload_accepted_def split: sum.splits option.splits)

lemma upload_loop_rejected:
  assumes "attempts < max_retries" and "api_rejected (post req (Suc attempts))"
  shows "\<exists>err. upload_loop post req attempts backoff tr =
           (Inr False, tr @ [Post req, Print (ErrorUploadingApi (name req) err)])"
  using assms
  by (subst upload_loop.simps)
    (auto simp: api_rejected_def api_error_code_def Let_def split: sum.splits option.splits)

subsection \<open>Claims about \<open>upload_emoji\<close>\<close>

text \<open>
  Claim C1. An upload that is rate-limited (status 429, or the API error code
  \<open>ratelimited\<close>) on every one of its five attempts returns \<open>False\<close>. The claim
  counts four backoff sleeps, of 1, 2, 4 and 8 seconds. The loop performs five: neither
  rate-limit branch tests \<open>attempts < max_retries\<close> before it sleeps (the branch for the
  other error statuses does), so the fifth attempt is followed by a sleep of 16 seconds
  and by no further attempt.
\<close>

theorem upload_emoji_persistent_rate_limit:
  assumes "\<forall>k. 1 \<le> k \<and> k \<le> max_retries \<longrightarrow>
             rate_limited (post (emoji_add_request team_id c t n f) k)"
  shows "fst (upload_emoji post team_id c t n f tr) = Inr False
       \<and> sleeps (snd (upload_emoji post team_id c t n f tr)) = sleeps tr @ [1, 2, 4, 8, 16]
       \<and> posts (snd (upload_emoji post team_id c t n f tr)) = posts tr + 5"
proof -
  let ?req = "emoji_add_request team_id c t n f"
  have "0 + 4 < max_retries" by (simp add: max_retries_def)
  moreover have "\<forall>j. 0 < j \<and> j \<le> 0 + 4 \<longrightarrow> retried (post ?req j)"
    using assms by (simp add: retried_def max_retries_def)
  ultimately obtain ms where
    ms: "upload_loop post ?req 0 1 tr = upload_loop post ?req (0 + 4) (1 * 2 ^ 4) (tr @ ms)"
      "sleeps ms = map (\<lambda>i. 1 * 2 ^ i) [0..<4]" "posts ms = 4"
    using upload_loop_retries [where attempts = 0 and n = 4 and post = post and req = ?req
        and backoff = 1 and tr = tr]
    by blast
  have "(4::nat) < max_retries" and "rate_limited (post ?req (Suc 4))"
    using assms by (simp_all add: max_retries_def)
  then obtain ms' where
    ms': "upload_loop post ?req 4 16 (tr @ ms) = upload_loop post ?req (Suc 4) (16 * 2) ((tr @ ms) @ ms')"
      "sleeps ms' = [16]" "posts ms' = 1"
    using upload_loop_rate_limited [where attempts = 4 and post = post and req = ?req
        and backoff = 16 and tr = "tr @ ms"]
    by blast
  have "upload_loop post ?req (Suc 4) (16 * 2) ((tr @ ms) @ ms') = (Inr False, (tr @ ms) @ ms')"
    using upload_loop_exhausted [of post ?req "16 * 2" "(tr @ ms) @ ms'"]
    by (simp add: max_retries_def)
  then have "upload_emoji post team_id c t n f tr = (Inr False, (tr @ ms) @ ms')"
    using ms(1) ms'(1) by (simp add: upload_emoji_def)
  moreover have "map (\<lambda>i. 1 * 2 ^ i) [0..<4] = [1, 2, 4, 8::nat]"
    by (simp add: upt_rec)
  ultimately show ?thesis
    using ms(2,3) ms'(2,3) by (simp add: sleeps_append posts_append)
qed

theorem upload_emoji_persistent_rate_limit_witness:
  "fst (upload_emoji always_429 ''T012AB3C4'' ''d=xyz'' ''xoxc-1'' ''smile'' ''emoji_downloads/smile.png'' []) = Inr False
   \<and> sleeps (snd (upload_emoji always_429 ''T012AB3C4'' ''d=xyz'' ''xoxc-1'' ''smile'' ''emoji_downloads/smile.png'' []))
       = [1, 2, 4, 8, 16]"
  using upload_emoji_persistent_rate_limit [of always_429 "''T012AB3C4''" "''d=xyz''" "''xoxc-1''"
      "''smile''" "''emoji_downloads/smile.png''" "[]"]
  by (simp add: always_429_def rate_limited_def http_429_def)

text \<open>
  Claim C2. An upload that receives status 429 on each of its first three attempts and is
  accepted on the fourth (status OK, API flag \<open>ok\<close> true) returns \<open>True\<close>; the
  backoff sleeps are exactly 1, 2 and 4 seconds, and four requests are sent.
\<close>

theorem upload_emoji_three_429_then_ok:
  assumes "\<forall>k. 1 \<le> k \<and> k \<le> 3 \<longrightarrow> http_429 (post (emoji_add_request team_id c t n f) k)"
    and "upload_accepted (post (emoji_add_request team_id c t n f) 4)"
  shows "fst (upload_emoji post team_id c t n f tr) = Inr True
       \<and> sleeps (snd (upload_emoji post team_id c t n f tr)) = sleeps tr @ [1, 2, 4]
       \<and> posts (snd (upload_emoji post team_id c t n f tr)) = posts tr + 4"
proof -
  let ?req = "emoji_add_request team_id c t n f"
  have "0 + 3 < max_retries" by (simp add: max_retries_def)
  moreover have "\<forall>j. 0 < j \<and> j \<le> 0 + 3 \<longrightarrow> retried (post ?req j)"
    using assms(1) by (simp add: retried_def rate_limited_def)
  ultimately obtain ms where
    ms: "upload_loop post ?req 0 1 tr = upload_loop post ?req (0 + 3) (1 * 2 ^ 3) (tr @ ms)"
      "sleeps ms = map (\<lambda>i. 1 * 2 ^ i) [0..<3]" "posts ms = 3"
    using upload_loop_retries [where attempts = 0 and n = 3 and post = post and req = ?req
        and backoff = 1 and tr = tr]
    by blast
  have "(3::nat) < max_retries" and "upload_accepted (post ?req (Suc 3))"
    using assms(2) by (simp_all add: max_retries_def)
  then have "upload_loop post ?req 3 8 (tr @ ms) =
      (Inr True, (tr @ ms) @ [Post ?req, Print (UploadedOk (name ?req))])"
    by (rule upload_loop_accepted)
  then have "upload_emoji post team_id c t n f tr =
      (Inr True, (tr @ ms) @ [Post ?req, Print (UploadedOk (name ?req))])"
    using ms(1) by (simp add: upload_emoji_def)
  moreover have "map (\<lambda>i. 1 * 2 ^ i) [0..<3] = [1, 2, 4::nat]"
    by (simp add: upt_rec)
  ultimately show ?thesis
    using ms(2,3) by (simp add: sleeps_append posts_append)
qed

theorem upload_emoji_three_429_then_ok_witness:
  "fst (upload_emoji ok_on_fourth ''T012AB3C4'' ''d=xyz'' ''xoxc-1'' ''smile'' ''emoji_downloads/smile.png'' []) = Inr True
   \<and> sleeps (snd (upload_emoji ok_on_fourth ''T012AB3C4'' ''d=xyz'' ''xoxc-1'' ''smile'' ''emoji_downloads/smile.png'' []))
       = [1, 2, 4]"
  using upload_emoji_three_429_then_ok [of ok_on_fourth "''T012AB3C4''" "''d=xyz''" "''xoxc-1''"
      "''smile''" "''emoji_downloads/smile.png''" "[]"]
  by (simp add: ok_on_fourth_def http_429_def upload_accepted_def response_ok_def)

text \<open>
  Claim C3. When attempt \<open>k\<close> (any of the five; the attempts before it were all retried)
  gets a response that is HTTP-OK with the API flag \<open>ok\<close> false and an error code other
  than \<open>ratelimited\<close>, \<open>upload_emoji\<close> returns \<open>False\<close> at once: exactly \<open>k\<close>
  requests have been sent, the only sleeps are the \<open>k - 1\<close> backoffs of the earlier
  attempts, and the last event is the print of the error.
\<close>

theorem upload_emoji_api_rejection_is_final:
  assumes "1 \<le> k" and "k \<le> max_retries"
    and "\<forall>j. 1 \<le> j \<and> j < k \<longrightarrow> retried (post (emoji_add_request team_id c t n f) j)"
    and "api_rejected (post (emoji_add_request team_id c t n f) k)"
  shows "fst (upload_emoji post team_id c t n f tr) = Inr False
       \<and> posts (snd (upload_emoji post team_id c t n f tr)) = posts tr + k
       \<and> sleeps (snd (upload_emoji post team_id c t n f tr)) = sleeps tr @ map (\<lambda>i. 2 ^ i) [0..<k - 1]
       \<and> (\<exists>err. last (snd (upload_emoji post team_id c t n f tr)) = Print (ErrorUploadingApi n err))"
proof -
  let ?req = "emoji_add_request team_id c t n f"
  from assms(1,2) have "0 + (k - 1) < max_retries" by simp
  moreover have "\<forall>j. 0 < j \<and> j \<le> 0 + (k - 1) \<longrightarrow> retried (post ?req j)"
    using assms(1,3) by auto
  ultimately obtain ms where
    ms: "upload_loop post ?req 0 1 tr = upload_loop post ?req (0 + (k - 1)) (1 * 2 ^ (k - 1)) (tr @ ms)"
      "sleeps ms = map (\<lambda>i. 1 * 2 ^ i) [0..<k - 1]" "posts ms = k - 1"
    using upload_loop_retries [where attempts = 0 and n = "k - 1" and post = post and req = ?req
        and backoff = 1 and tr = tr]
    by blast
  have "k - 1 < max_retries" and "api_rejected (post ?req (Suc (k - 1)))"
    using assms(1,2,4) by simp_all
  then obtain err where
    "upload_loop post ?req (k - 1) (2 ^ (k - 1)) (tr @ ms) =
       (Inr False, (tr @ ms) @ [Post ?req, Print (ErrorUploadingApi (name ?req) err)])"
    using upload_loop_rejected [where attempts = "k - 1" and post = post and req = ?req
        and backoff = "2 ^ (k - 1)" and tr = "tr @ ms"]
    by blast
  then have "upload_emoji post team_id c t n f tr =
      (Inr False, (tr @ ms) @ [Post ?req, Print (ErrorUploadingApi n err)])"
    using ms(1) by (simp add: upload_emoji_def emoji_add_request_def)
  then show ?thesis
    using ms(2,3) assms(1) by (auto simp add: sleeps_append posts_append)
qed

theorem upload_emoji_api_rejection_is_final_witness:
  "fst (upload_emoji name_taken_on_third ''T012AB3C4'' ''d=xyz'' ''xoxc-1'' ''smile'' ''emoji_downloads/smile.png'' []) = Inr False
   \<and> posts (snd (upload_emoji name_taken_on_third ''T012AB3C4'' ''d=xyz'' ''xoxc-1'' ''smile'' ''emoji_downloads/smile.png'' [])) = 3
   \<and> sleeps (snd (upload_emoji name_taken_on_third ''T012AB3C4'' ''d=xyz'' ''xoxc-1'' ''smile'' ''emoji_downloads/smile.png'' []))
       = [1, 2]"
proof -
  have "map (\<lambda>i. 2 ^ i) [0..<3 - 1] = [1, 2::nat]"
    by (simp add: upt_rec)
  then show ?thesis
    using upload_emoji_api_rejection_is_final [of 3 name_taken_on_third "''T012AB3C4''" "''d=xyz''"
      "''xoxc-1''" "''smile''" "''emoji_downloads/smile.png''" "[]"]
    by (simp add: name_taken_on_third_def retried_def rate_limited_def http_429_def
      http_error_def api_rejected_def api_error_code_def response_ok_def max_retries_def)
qed

subsection \<open>Claims about \<open>list_emojis\<close>\<close>

lemma update_fresh: "k \<notin> fst ` set d \<Longrightarrow> AList.update k v d = d @ [(k, v)]"
  by (induction d) auto

lemma filter_aliases_filter:
  "distinct (map fst (custom @ items)) \<Longrightarrow>
     filter_aliases items custom = custom @ filter not_alias items"
proof (induction items arbitrary: custom)
  case Nil
  then show ?case by simp
next
  case (Cons kv items)
  obtain k v where kv: "kv = (k, v)" by (cases kv)
  show ?case
  proof (cases "startswith v ''alias:''")
    case True
    then have "\<not> not_alias (k, v)" by (simp add: not_alias_def)
    moreover from Cons.prems have "distinct (map fst (custom @ items))" by simp
    ultimately show ?thesis
      using Cons.IH [of custom] kv True by simp
  next
    case False
    from Cons.prems kv have fresh: "k \<notin> fst ` set custom" by auto
    from Cons.prems kv have "distinct (map fst ((custom @ [(k, v)]) @ items))" by auto
    then have "filter_aliases items (custom @ [(k, v)]) = (custom @ [(k, v)]) @ filter not_alias items"
      by (rule Cons.IH)
    moreover from False have "not_alias (k, v)" by (simp add: not_alias_def)
    ultimately show ?thesis
      using False fresh kv by (simp add: update_fresh)
  qed
qed

text \<open>
  Claim C4. When the directory answers with an emoji mapping \<open>items\<close> (a \<open>dict\<close>, so
  its keys are distinct), the catalog that \<open>list_emojis\<close> returns is \<open>items\<close> without
  the entries whose value begins with \<open>alias:\<close>, in the same order: no value of the
  catalog begins with \<open>alias:\<close>, and every other entry is kept with its URL.
\<close>

theorem list_emojis_drops_exactly_the_aliases:
  assumes "http_get env ''https://slack.com/api/emoji.list'' (Some tok) = Inr r"
    and "response_ok r" and "json r = Some data" and "ok data"
    and "emoji data = Some items" and "distinct (map fst items)"
    and "can_write env output_file"
  shows "fst (list_emojis env tok output_file w) = Inr (filter not_alias items)
       \<and> (\<forall>kv \<in> set (filter not_alias items). \<not> startswith (snd kv) ''alias:'')
       \<and> (\<forall>kv \<in> set items. \<not> startswith (snd kv) ''alias:'' \<longrightarrow>
            map_of (filter not_alias items) (fst kv) = Some (snd kv))"
proof -
  have "filter_aliases items [] = filter not_alias items"
    using assms(6) filter_aliases_filter [of "[]" items] by simp
  then have "fst (list_emojis env tok output_file w) = Inr (filter not_alias items)"
    using assms(1-5,7) by (simp add: list_emojis_def Let_def)
  moreover have "\<forall>kv \<in> set (filter not_alias items). \<not> startswith (snd kv) ''alias:''"
    by (simp add: not_alias_def)
  moreover have "\<forall>kv \<in> set items. \<not> startswith (snd kv) ''alias:'' \<longrightarrow>
       map_of (filter not_alias items) (fst kv) = Some (snd kv)"
  proof (intro ballI impI)
    fix kv assume "kv \<in> set items" and "\<not> startswith (snd kv) ''alias:''"
    then have "(fst kv, snd kv) \<in> set (filter not_alias items)"
      by (simp add: not_alias_def)
    moreover have "distinct (map fst (filter not_alias items))"
      using assms(6) by (simp add: distinct_map_filter)
    ultimately show "map_of (filter not_alias items) (fst kv) = Some (snd kv)"
      by (rule map_of_is_SomeI [rotated])
  qed
  ultimately show ?thesis by blast
qed

theorem list_emojis_drops_exactly_the_aliases_witness:
  "fst (list_emojis directory_env ''xoxp-1'' ''emoji_list.json'' empty_world)
     = Inr [(''smile'', ''https://x/e1.png'')]"
  using list_emojis_drops_exactly_the_aliases [of directory_env "''xoxp-1''" _ _
      "[(''smile'', ''https://x/e1.png''), (''party'', ''alias:smile'')]" "''emoji_list.json''" empty_world]
  by (simp add: directory_env_def response_ok_def not_alias_def startswith_def)

subsection \<open>Claims about the failures of \<open>list_emojis\<close>\<close>

text \<open>
  A 200 answer whose body is not JSON: \<open>response.json()\<close> raises, nothing catches the
  exception, and \<open>list_emojis\<close> fails although the status is OK and no success flag is
  false.
\<close>

theorem list_emojis_fails_iff_counterexample:
  "\<not> (isl (fst (list_emojis html_env ''xoxp-1'' ''emoji_list.json'' empty_world))
       \<longleftrightarrow> (http_error (http_get html_env list_url (Some ''xoxp-1''))
            \<or> success_flag_false (http_get html_env list_url (Some ''xoxp-1''))))"
  by (simp add: list_emojis_def html_env_def list_url_def response_ok_def http_error_def
      success_flag_false_def Let_def)

text \<open>
  Claim C7. \<open>list_emojis\<close> fails if and only if the HTTP status is not OK or the success
  flag is false; the process then exits with a non-zero code after a diagnostic, without
  a retry and without writing the catalog file. As stated, the equivalence does not
  hold: a 200 answer whose body is not JSON makes \<open>response.json()\<close> raise, and nothing
  catches the exception, so the step fails although neither condition holds (a request
  that raises, a missing \<open>emoji\<close> key and a failed write do the same).
  What holds: \<open>list_emojis\<close> ends the process through \<open>sys.exit(1)\<close> if and only if
  one of the two conditions holds, and then it has sent exactly one request, printed
  exactly one diagnostic and written no file.
\<close>

theorem list_emojis_exits_iff:
  "(fst (list_emojis env tok output_file w) = Inl (SystemExit 1)
      \<longleftrightarrow> (http_error (http_get env list_url (Some tok))
           \<or> success_flag_false (http_get env list_url (Some tok))))
   \<and> (fst (list_emojis env tok output_file w) = Inl (SystemExit 1) \<longrightarrow>
        files (snd (list_emojis env tok output_file w)) = files w
        \<and> (\<exists>m. trace (snd (list_emojis env tok output_file w))
                  = trace w @ [Get list_url, Print m]))"
  by (auto simp: list_emojis_def list_url_def http_error_def success_flag_false_def Let_def
      emit_def write_file_def split: sum.splits option.splits)

theorem list_emojis_exits_iff_witness:
  "fst (list_emojis broken_env ''xoxp-1'' ''emoji_list.json'' empty_world) = Inl (SystemExit 1)
   \<and> files (snd (list_emojis broken_env ''xoxp-1'' ''emoji_list.json'' empty_world)) = Map.empty
   \<and> (\<exists>m. trace (snd (list_emojis broken_env ''xoxp-1'' ''emoji_list.json'' empty_world))
            = [Get list_url, Print m])"
  using list_emojis_exits_iff [of broken_env "''xoxp-1''" "''emoji_list.json''" empty_world]
  by (simp add: broken_env_def http_error_def response_ok_def empty_world_def)

subsection \<open>\<open>rfind\<close> and \<open>splitext\<close>\<close>

lemma rfind_from_append:
  "rfind_from (xs @ ys) c i found = rfind_from ys c (i + int (length xs)) (rfind_from xs c i found)"
  by (induction xs arbitrary: i found) (simp_all add: add.assoc)

lemma rfind_from_absent: "c \<notin> set s \<Longrightarrow> rfind_from s c i found = found"
  by (induction s arbitrary: i) auto

lemma rfind_absent: "c \<notin> set s \<Longrightarrow> rfind s c = - 1"
  by (simp add: rfind_def rfind_from_absent)

lemma rfind_last: "c \<notin> set suf \<Longrightarrow> rfind (pre @ c # suf) c = int (length pre)"
  by (simp add: rfind_def rfind_from_append rfind_from_absent)

lemma rfind_ge: "- 1 \<le> rfind s c"
proof (cases "c \<in> set s")
  case True
  then have "\<exists>pre suf. s = pre @ c # suf \<and> c \<notin> set suf"
    by (rule split_list_last)
  then obtain pre suf where "s = pre @ c # suf" and "c \<notin> set suf"
    by (elim exE conjE)
  then show ?thesis by (simp add: rfind_last)
next
  case False
  then show ?thesis by (simp add: rfind_absent)
qed

lemma non_dot_before_iff:
  "non_dot_before p i j \<longleftrightarrow> (\<exists>k. i \<le> k \<and> k < j \<and> take 1 (drop k p) \<noteq> ''.'')"
proof (induction p i j rule: non_dot_before.induct)
  case (1 p i j)
  show ?case
  proof (cases "i < j")
    case False
    then show ?thesis by (subst non_dot_before.simps) auto
  next
    case True
    show ?thesis
    proof (cases "take 1 (drop i p) \<noteq> ''.''")
      case nd: True
      with True show ?thesis by (subst non_dot_before.simps) auto
    next
      case d: False
      then have "non_dot_before p i j = non_dot_before p (i + 1) j"
        using True by (subst non_dot_before.simps) simp
      also have "\<dots> \<longleftrightarrow> (\<exists>k. i + 1 \<le> k \<and> k < j \<and> take 1 (drop k p) \<noteq> ''.'')"
        using "1.IH" True d by simp
      also have "\<dots> \<longleftrightarrow> (\<exists>k. i \<le> k \<and> k < j \<and> take 1 (drop k p) \<noteq> ''.'')"
      proof
        assume "\<exists>k. i + 1 \<le> k \<and> k < j \<and> take 1 (drop k p) \<noteq> ''.''"
        then obtain k where "i + 1 \<le> k" "k < j" "take 1 (drop k p) \<noteq> ''.''" by blast
        then show "\<exists>k. i \<le> k \<and> k < j \<and> take 1 (drop k p) \<noteq> ''.''"
          by (intro exI [of _ k]) simp
      next
        assume "\<exists>k. i \<le> k \<and> k < j \<and> take 1 (drop k p) \<noteq> ''.''"
        then obtain k where k: "i \<le> k" "k < j" "take 1 (drop k p) \<noteq> ''.''" by blast
        with d have "k \<noteq> i" by auto
        with k show "\<exists>k. i + 1 \<le> k \<and> k < j \<and> take 1 (drop k p) \<noteq> ''.''"
          by (intro exI [of _ k]) simp
      qed
      finally show ?thesis .
    qed
  qed
qed

lemma last_segment_split:
  "\<exists>dir. p = dir @ last_segment p \<and> (dir = [] \<or> last dir = CHR ''/'')
     \<and> CHR ''/'' \<notin> set (last_segment p)"
proof -
  let ?P = "\<lambda>c. c \<noteq> CHR ''/''"
  let ?dir = "rev (dropWhile ?P (rev p))"
  have "rev (takeWhile ?P (rev p) @ dropWhile ?P (rev p)) = p"
    by (simp only: takeWhile_dropWhile_id rev_rev_ident)
  then have 1: "p = ?dir @ last_segment p"
    by (simp only: rev_append last_segment_def)
  have 2: "?dir = [] \<or> last ?dir = CHR ''/''"
  proof (cases "dropWhile ?P (rev p) = []")
    case True
    then show ?thesis by simp
  next
    case False
    then have "\<not> ?P (hd (dropWhile ?P (rev p)))" by (rule hd_dropWhile)
    with False show ?thesis by (simp add: last_rev)
  qed
  have 3: "CHR ''/'' \<notin> set (last_segment p)"
    using set_takeWhileD [of "CHR ''/''" ?P "rev p"] by (auto simp: last_segment_def)
  from 1 2 3 show ?thesis by blast
qed

lemma rfind_sep_dir:
  assumes "dir = [] \<or> last dir = CHR ''/''" and "CHR ''/'' \<notin> set seg"
  shows "rfind (dir @ seg) (CHR ''/'') + 1 = int (length dir)"
proof (cases "dir = []")
  case True
  with assms(2) show ?thesis by (simp add: rfind_absent)
next
  case False
  define dir' where "dir' = butlast dir"
  have d: "dir = dir' @ [CHR ''/'']"
    unfolding dir'_def using False assms(1) append_butlast_last_id [of dir] by simp
  show ?thesis
    unfolding d using rfind_last [of "CHR ''/''" seg dir'] assms(2) by simp
qed

lemma splitext_ext_no_dot:
  assumes "CHR ''.'' \<notin> set (last_segment p)"
  shows "splitext_ext p = []"
proof -
  define seg where "seg = last_segment p"
  obtain dir where dir: "p = dir @ seg" "dir = [] \<or> last dir = CHR ''/''"
      "CHR ''/'' \<notin> set seg"
    unfolding seg_def using last_segment_split by blast
  have nodot: "CHR ''.'' \<notin> set seg"
    unfolding seg_def by (rule assms)
  have sep: "rfind p (CHR ''/'') + 1 = int (length dir)"
    unfolding dir(1) by (rule rfind_sep_dir [OF dir(2,3)])
  have "rfind p (CHR ''.'') \<le> rfind p (CHR ''/'')"
  proof (cases "CHR ''.'' \<in> set dir")
    case False
    with nodot have "CHR ''.'' \<notin> set p"
      unfolding dir(1) by simp
    then have "rfind p (CHR ''.'') = - 1"
      by (rule rfind_absent)
    then show ?thesis using rfind_ge [of p "CHR ''/''"] by simp
  next
    case True
    then have "\<exists>pre suf. dir = pre @ CHR ''.'' # suf \<and> CHR ''.'' \<notin> set suf"
      by (rule split_list_last)
    then obtain pre suf where ps: "dir = pre @ CHR ''.'' # suf" "CHR ''.'' \<notin> set suf"
      by (elim exE conjE)
    have "CHR ''.'' \<notin> set (suf @ seg)"
      using ps(2) nodot by simp
    then have "rfind (pre @ CHR ''.'' # (suf @ seg)) (CHR ''.'') = int (length pre)"
      by (rule rfind_last)
    then have "rfind p (CHR ''.'') = int (length pre)"
      unfolding dir(1) ps(1) by simp
    with sep ps(1) show ?thesis by simp
  qed
  then show ?thesis by (simp add: splitext_ext_def Let_def)
qed

lemma splitext_ext_suffix:
  assumes "dir = [] \<or> last dir = CHR ''/''"
    and "CHR ''/'' \<notin> set base" and "\<exists>c \<in> set base. c \<noteq> CHR ''.''"
    and "CHR ''/'' \<notin> set e" and "CHR ''.'' \<notin> set e"
  shows "splitext_ext (dir @ base @ CHR ''.'' # e) = CHR ''.'' # e"
proof -
  let ?p = "dir @ base @ CHR ''.'' # e"
  have "CHR ''/'' \<notin> set (base @ CHR ''.'' # e)"
    using assms(2,4) by simp
  then have sep: "rfind ?p (CHR ''/'') + 1 = int (length dir)"
    using rfind_sep_dir [OF assms(1)] by blast
  have dot: "rfind ?p (CHR ''.'') = int (length dir + length base)"
    using rfind_last [of "CHR ''.''" e "dir @ base"] assms(5) by simp
  from assms(3) obtain i where i: "i < length base" "base ! i \<noteq> CHR ''.''"
    by (auto simp: in_set_conv_nth)
  have "drop (length dir + i) ?p = drop i base @ CHR ''.'' # e"
    using i(1) by simp
  with i have "take 1 (drop (length dir + i) ?p) = [base ! i]"
    by (simp add: take_Suc_conv_app_nth hd_drop_conv_nth take_Suc)
  with i have "non_dot_before ?p (length dir) (length dir + length base)"
    unfolding non_dot_before_iff by (intro exI [of _ "length dir + i"]) simp
  moreover have "nat (rfind ?p (CHR ''/'') + 1) = length dir"
    using sep by simp
  moreover have "rfind ?p (CHR ''.'') > rfind ?p (CHR ''/'')"
    using sep dot i(1) by simp
  moreover have "nat (rfind ?p (CHR ''.'')) = length dir + length base"
    using dot by simp
  ultimately show ?thesis
    by (simp add: splitext_ext_def Let_def)
qed

subsection \<open>Claims about \<open>upload_emojis\<close>\<close>

lemma fnmatch_literal:
  "CHR ''*'' \<notin> set p \<Longrightarrow> CHR ''?'' \<notin> set p \<Longrightarrow> fnmatch p s \<longleftrightarrow> s = p"
  by (induction p s rule: fnmatch.induct) auto

lemma fnmatch_star_literal:
  assumes "CHR ''*'' \<notin> set p" and "CHR ''?'' \<notin> set p"
  shows "fnmatch (CHR ''*'' # p) s \<longleftrightarrow> suffix p s"
proof (induction s)
  case Nil
  then show ?case using assms by (auto simp: fnmatch_literal)
next
  case (Cons c cs)
  have "fnmatch (CHR ''*'' # p) (c # cs) \<longleftrightarrow> fnmatch p (c # cs) \<or> fnmatch (CHR ''*'' # p) cs"
    by simp
  also have "\<dots> \<longleftrightarrow> c # cs = p \<or> suffix p cs"
    using assms Cons.IH by (simp add: fnmatch_literal)
  also have "\<dots> \<longleftrightarrow> suffix p (c # cs)"
    by (auto simp: suffix_Cons)
  finally show ?case .
qed

lemma emoji_files_filter:
  "set (emoji_files names) =
     {n \<in> set names. suffix ''.png'' n \<or> suffix ''.jpg'' n \<or> suffix ''.jpeg'' n \<or> suffix ''.gif'' n}"
  by (auto simp: emoji_files_def image_patterns_def glob_def fnmatch_star_literal)

lemma last_dot_split_unique:
  assumes "xs @ c # e = ys @ c # x" and "c \<notin> set e" and "c \<notin> set x"
  shows "e = x"
proof -
  have "\<And>zs t. c \<notin> set t \<Longrightarrow> takeWhile (\<lambda>a. a \<noteq> c) (rev (zs @ c # t)) = rev t"
    by (simp add: takeWhile_append)
  then have "rev e = takeWhile (\<lambda>a. a \<noteq> c) (rev (xs @ c # e))"
    and "rev x = takeWhile (\<lambda>a. a \<noteq> c) (rev (ys @ c # x))"
    using assms(2,3) by simp_all
  then have "rev e = rev x"
    by (simp only: assms(1))
  then show ?thesis by simp
qed

lemma lower_dot: "lower c = CHR ''.'' \<Longrightarrow> c = CHR ''.''"
proof -
  assume a: "lower c = CHR ''.''"
  show ?thesis
  proof (cases "65 \<le> (of_char c :: nat) \<and> (of_char c :: nat) \<le> 90")
    case False
    with a show ?thesis by (simp add: lower_def)
  next
    case True
    then have "lower c = char_of ((of_char c :: nat) + 32)"
      by (simp add: lower_def)
    with a have "(of_char (char_of ((of_char c :: nat) + 32)) :: nat) = of_char (CHR ''.'')"
      by simp
    moreover have "(of_char c :: nat) + 32 < 256"
      using True by simp
    ultimately have "(of_char c :: nat) + 32 = 46"
      by simp
    with True show ?thesis by simp
  qed
qed

lemma case_variant_no_match:
  assumes "case_variant n" and "x \<in> set image_exts"
  shows "\<not> suffix (CHR ''.'' # x) n"
proof
  assume "suffix (CHR ''.'' # x) n"
  then obtain pre where pre: "n = pre @ CHR ''.'' # x"
    by (auto simp: suffix_def)
  from assms(1) obtain base e where e: "n = base @ CHR ''.'' # e"
      "map lower e \<in> set image_exts" "e \<notin> set image_exts"
    by (auto simp: case_variant_def)
  have "CHR ''.'' \<notin> set (map lower e)"
    using e(2) by (auto simp: image_exts_def)
  then have "CHR ''.'' \<notin> set e"
    using lower_dot by (auto simp: image_iff lower_def)
  moreover have "CHR ''.'' \<notin> set x"
    using assms(2) by (auto simp: image_exts_def)
  moreover have "base @ CHR ''.'' # e = pre @ CHR ''.'' # x"
    using e(1) pre by simp
  ultimately have "e = x"
    by (rule last_dot_split_unique [rotated])
  with e(3) assms(2) show False by simp
qed

lemma case_variant_not_listed:
  assumes "case_variant n"
  shows "n \<notin> set (emoji_files names)"
  using case_variant_no_match [OF assms]
  by (simp add: emoji_files_filter image_exts_def)

lemma emoji_files_without:
  assumes "n \<notin> set (emoji_files (n # names))"
  shows "emoji_files (filter (\<lambda>x. x \<noteq> n) names) = emoji_files names"
proof -
  have "\<And>pat. pat \<in> set image_patterns \<Longrightarrow> fnmatch pat n \<Longrightarrow>
      n \<in> set (emoji_files (n # names))"
    by (force simp: emoji_files_def glob_def)
  with assms have "\<And>pat. pat \<in> set image_patterns \<Longrightarrow> \<not> fnmatch pat n"
    by blast
  then have "\<And>pat. pat \<in> set image_patterns \<Longrightarrow>
      glob (filter (\<lambda>x. x \<noteq> n) names) pat = glob names pat"
    by (auto simp: glob_def intro!: filter_cong)
  then show ?thesis
    by (simp add: emoji_files_def cong: map_cong)
qed

lemma upload_files_counts:
  "upload_files post jitter team c t d fs i u f tr = (Inr (u', f'), tr') \<Longrightarrow>
     u' + f' = u + f + length fs"
proof (induction fs arbitrary: i u f tr)
  case Nil
  then show ?case by simp
next
  case (Cons fl rest)
  obtain res tr1 where up: "upload_emoji post team c t (stem fl) (os_path_join d fl)
      (tr @ [Print (Uploading (stem fl))]) = (res, tr1)"
    by (cases "upload_emoji post team c t (stem fl) (os_path_join d fl)
      (tr @ [Print (Uploading (stem fl))])")
  show ?case
  proof (cases res)
    case (Inl e)
    with Cons.prems up show ?thesis by (simp add: Let_def)
  next
    case (Inr b)
    with Cons.prems up have "upload_files post jitter team c t d rest (i + 1)
        (if b then u + 1 else u) (if b then f else f + 1) (tr1 @ [Pace (1 + jitter i)])
        = (Inr (u', f'), tr')"
      by (simp add: Let_def)
    from Cons.IH [OF this] show ?thesis by (cases b) simp_all
  qed
qed

text \<open>
  Claim C10. The scan of \<open>upload_emojis\<close> keeps the names that end in \<open>.png\<close>,
  \<open>.jpg\<close>, \<open>.jpeg\<close> or \<open>.gif\<close>, in lower case. A file whose extension differs from
  these in the case of its letters (\<open>smile.PNG\<close>) is not a candidate: the run is the one
  of the directory without that file, and on a normal return the uploaded and the
  failed count add up to the number of candidates, so the file is in neither.
\<close>

theorem upload_emojis_skips_case_variants:
  assumes "case_variant n"
  shows "n \<notin> set (emoji_files (listdir d))
       \<and> upload_emojis post (\<lambda>d'. filter (\<lambda>x. x \<noteq> n) (listdir d')) jitter team c t d tr
           = upload_emojis post listdir jitter team c t d tr
       \<and> (\<forall>uploaded. fst (upload_emojis post listdir jitter team c t d tr) = Inr uploaded \<longrightarrow>
            (\<exists>failed. last (snd (upload_emojis post listdir jitter team c t d tr))
                        = Print (UploadSummary uploaded failed)
                    \<and> uploaded + failed = length (emoji_files (filter (\<lambda>x. x \<noteq> n) (listdir d)))))"
proof -
  have 1: "n \<notin> set (emoji_files (listdir d))"
    using assms by (rule case_variant_not_listed)
  have "n \<notin> set (emoji_files (n # listdir d))"
    using assms by (rule case_variant_not_listed)
  then have same: "emoji_files (filter (\<lambda>x. x \<noteq> n) (listdir d)) = emoji_files (listdir d)"
    by (rule emoji_files_without)
  then have 2: "upload_emojis post (\<lambda>d'. filter (\<lambda>x. x \<noteq> n) (listdir d')) jitter team c t d tr
      = upload_emojis post listdir jitter team c t d tr"
    by (simp add: upload_emojis_def)
  have 3: "\<forall>uploaded. fst (upload_emojis post listdir jitter team c t d tr) = Inr uploaded \<longrightarrow>
      (\<exists>failed. last (snd (upload_emojis post listdir jitter team c t d tr))
                  = Print (UploadSummary uploaded failed)
              \<and> uploaded + failed = length (emoji_files (filter (\<lambda>x. x \<noteq> n) (listdir d))))"
  proof (intro allI impI)
    fix uploaded
    assume r: "fst (upload_emojis post listdir jitter team c t d tr) = Inr uploaded"
    let ?fs = "emoji_files (listdir d)"
    obtain res tr1 where uf: "upload_files post jitter team c t d ?fs 0 0 0
        (tr @ [Print (FoundFiles (length ?fs) d)]) = (res, tr1)"
      by (cases "upload_files post jitter team c t d ?fs 0 0 0
        (tr @ [Print (FoundFiles (length ?fs) d)])")
    with r obtain failed where res: "res = Inr (uploaded, failed)"
      by (cases res) (auto simp: upload_emojis_def Let_def)
    with uf have "uploaded + failed = length ?fs"
      using upload_files_counts [of post jitter team c t d ?fs 0 0 0 _ uploaded failed tr1] by simp
    moreover have "last (snd (upload_emojis post listdir jitter team c t d tr))
        = Print (UploadSummary uploaded failed)"
      using uf res by (simp add: upload_emojis_def Let_def)
    ultimately show "\<exists>failed. last (snd (upload_emojis post listdir jitter team c t d tr))
          = Print (UploadSummary uploaded failed)
        \<and> uploaded + failed = length (emoji_files (filter (\<lambda>x. x \<noteq> n) (listdir d)))"
      using same by (intro exI [of _ failed]) simp
  qed
  show ?thesis by (rule conjI [OF 1 conjI [OF 2 3]])
qed

theorem upload_emojis_skips_case_variants_witness:
  "''smile.PNG'' \<notin> set (emoji_files (mixed_dir ''emoji_downloads''))
   \<and> fst (upload_emojis accept_all mixed_dir (\<lambda>i. 1) ''T0'' ''d=x'' ''xoxc-1'' ''emoji_downloads'' [])
       = Inr 1
   \<and> last (snd (upload_emojis accept_all mixed_dir (\<lambda>i. 1) ''T0'' ''d=x'' ''xoxc-1''
        ''emoji_downloads'' [])) = Print (UploadSummary 1 0)"
proof -
  have "map lower ''PNG'' = ''png''"
    by code_simp
  then have "''smile.PNG'' = ''smile'' @ CHR ''.'' # ''PNG'' \<and> map lower ''PNG'' \<in> set image_exts
      \<and> ''PNG'' \<notin> set image_exts"
    by (simp add: image_exts_def)
  then have cv: "case_variant ''smile.PNG''"
    unfolding case_variant_def by (intro exI)
  note T = upload_emojis_skips_case_variants [OF cv, of mixed_dir "''emoji_downloads''" accept_all
      "\<lambda>i. 1" "''T0''" "''d=x''" "''xoxc-1''" "[]"]
  have files: "emoji_files (mixed_dir ''emoji_downloads'') = [''party.gif'']"
    by (simp add: emoji_files_def image_patterns_def glob_def mixed_dir_def)
  have acc: "\<And>req. upload_accepted (accept_all req (Suc 0))"
    by (simp add: upload_accepted_def accept_all_def response_ok_def)
  have run: "fst (upload_emojis accept_all mixed_dir (\<lambda>i. 1) ''T0'' ''d=x'' ''xoxc-1''
      ''emoji_downloads'' []) = Inr 1"
    by (simp add: upload_emojis_def files Let_def upload_emoji_def upload_loop_accepted acc
        max_retries_def)
  have len: "length (emoji_files (filter (\<lambda>x. x \<noteq> ''smile.PNG'') (mixed_dir ''emoji_downloads''))) = 1"
    by (simp add: emoji_files_def image_patterns_def glob_def mixed_dir_def)
  from T have "\<forall>uploaded. fst (upload_emojis accept_all mixed_dir (\<lambda>i. 1) ''T0'' ''d=x'' ''xoxc-1''
        ''emoji_downloads'' []) = Inr uploaded \<longrightarrow>
      (\<exists>failed. last (snd (upload_emojis accept_all mixed_dir (\<lambda>i. 1) ''T0'' ''d=x'' ''xoxc-1''
            ''emoji_downloads'' [])) = Print (UploadSummary uploaded failed)
         \<and> uploaded + failed = length (emoji_files (filter (\<lambda>x. x \<noteq> ''smile.PNG'')
              (mixed_dir ''emoji_downloads''))))"
    by (elim conjE)
  with run len have "last (snd (upload_emojis accept_all mixed_dir (\<lambda>i. 1) ''T0'' ''d=x'' ''xoxc-1''
      ''emoji_downloads'' [])) = Print (UploadSummary 1 0)"
    by auto
  moreover from T have "''smile.PNG'' \<notin> set (emoji_files (mixed_dir ''emoji_downloads''))"
    by (elim conjE)
  ultimately show ?thesis using run by simp
qed

subsection \<open>The catalog file is read back as it was written\<close>









subsection \<open>The download pool\<close>

lemma fst_download_emoji:
  "fst (download_emoji env n v d w) =
     (case task_raises env (n, v) of None \<Rightarrow> Inr (saved env d (n, v)) | Some e \<Rightarrow> Inl e)"
  by (simp add: download_emoji_def task_raises_def saved_def image_entry_def download_fails_def
      target_file_def Let_def split: jvalue.splits option.splits sum.splits)


lemma saved_name: "saved env d kv = Some r \<Longrightarrow> fst r = fst kv"
  by (auto simp: saved_def split: jvalue.splits option.splits if_splits)






lemma run_pool_futures:
  "fst (run_pool env c d order (futs, w)) =
     fold (\<lambda>i fs. fs[i := Some (fst (download_emoji env (fst (c ! i)) (snd (c ! i)) d empty_world))])
       order futs"
proof (induction order arbitrary: futs w)
  case Nil
  then show ?case by (simp add: run_pool_def)
next
  case (Cons i order)
  obtain res w' where r: "download_emoji env (fst (c ! i)) (snd (c ! i)) d w = (res, w')"
    by (cases "download_emoji env (fst (c ! i)) (snd (c ! i)) d w")
  then have "res = fst (download_emoji env (fst (c ! i)) (snd (c ! i)) d empty_world)"
    using fst_download_emoji [of env "fst (c ! i)" "snd (c ! i)" d w]
      fst_download_emoji [of env "fst (c ! i)" "snd (c ! i)" d empty_world] by simp
  with r Cons.IH [of "futs[i := Some res]" w'] show ?case
    by (simp add: run_pool_def run_task_def)
qed


lemma fold_update_length: "length (fold (\<lambda>i fs. fs[i := g i]) order futs) = length futs"
  by (induction order arbitrary: futs) auto

lemma fold_update_nth:
  "j < length futs \<Longrightarrow>
     fold (\<lambda>i fs. fs[i := g i]) order futs ! j = (if j \<in> set order then g j else futs ! j)"
proof (induction order arbitrary: futs)
  case Nil
  then show ?case by simp
next
  case (Cons i order)
  then show ?case by (cases "i = j") auto
qed

lemma set_exec_order: "set (exec_order n sched) = {0..<n}"
  by (auto simp: exec_order_def)


lemma pool_futures_all:
  "fst (run_pool env c d (exec_order (length c) sched) (replicate (length c) None, w)) =
     map (\<lambda>kv. Some (fst (download_emoji env (fst kv) (snd kv) d empty_world))) c"
proof (rule nth_equalityI)
  show "length (fst (run_pool env c d (exec_order (length c) sched) (replicate (length c) None, w)))
      = length (map (\<lambda>kv. Some (fst (download_emoji env (fst kv) (snd kv) d empty_world))) c)"
    by (simp add: run_pool_futures fold_update_length)
next
  fix j
  assume "j < length (fst (run_pool env c d (exec_order (length c) sched) (replicate (length c) None, w)))"
  then have j: "j < length c"
    by (simp add: run_pool_futures fold_update_length)
  then show "fst (run_pool env c d (exec_order (length c) sched) (replicate (length c) None, w)) ! j
      = map (\<lambda>kv. Some (fst (download_emoji env (fst kv) (snd kv) d empty_world))) c ! j"
    by (simp add: run_pool_futures fold_update_nth set_exec_order)
qed

lemma join_futures_all:
  "join_futures (map (\<lambda>kv. Some (fst (download_emoji env (fst kv) (snd kv) d empty_world))) c) acc =
     (case first_raised (map (task_raises env) c) of
        None \<Rightarrow> Inr (acc @ List.map_filter (saved env d) c)
      | Some e \<Rightarrow> Inl e)"
proof (induction c arbitrary: acc)
  case Nil
  show ?case by (simp add: List.map_filter_simps)
next
  case (Cons kv c)
  show ?case
  proof (cases "task_raises env kv")
    case (Some e)
    then show ?thesis
      using fst_download_emoji [of env "fst kv" "snd kv" d empty_world] by simp
  next
    case None
    then have r: "fst (download_emoji env (fst kv) (snd kv) d empty_world) = Inr (saved env d kv)"
      using fst_download_emoji [of env "fst kv" "snd kv" d empty_world] by simp
    show ?thesis
    proof (cases "saved env d kv")
      case n: None
      with r None Cons.IH [of acc] show ?thesis
        by (simp add: List.map_filter_simps split: option.splits)
    next
      case s: (Some res)
      with r None Cons.IH [of "acc @ [res]"] show ?thesis
        by (simp add: List.map_filter_simps split: option.splits)
    qed
  qed
qed

lemma map_fst_map_filter_saved:
  "map fst (List.map_filter (saved env d) c) =
     map fst (filter (\<lambda>kv. saved env d kv \<noteq> None) c)"
  by (induction c) (auto simp: List.map_filter_simps saved_name split: option.splits)

lemma download_emojis_result:
  assumes "can_mkdir env d" and "load_emoji_list env w el = Mapping c"
  shows "fst (download_emojis env el d sched w) =
     (case first_raised (map (task_raises env) c) of
        None \<Rightarrow> Inr (List.map_filter (saved env d) c)
      | Some e \<Rightarrow> Inl (Uncaught e))"
  using assms
  by (simp add: download_emojis_def Let_def pool_futures_all join_futures_all split: option.splits)



subsection \<open>Claims about \<open>download_emojis\<close>\<close>

lemma saved_Some_iff:
  "saved env d kv \<noteq> None \<longleftrightarrow> image_entry env kv \<and> \<not> download_fails env d kv"
  by (auto simp: saved_def image_entry_def split: jvalue.splits option.splits)





text \<open>
  Claim C9. The list that \<open>download_emojis\<close> returns is made of the pairs of the entries
  that were downloaded (the image entries that did not fail), in the order of the
  catalog: one future per entry in the order of iteration, joined in that order. The
  order in which the pool completes the tasks (\<open>sched\<close>) has no influence on the
  result: two schedules give the same list, or the same exception when a task raises
  (then no list is returned).
\<close>

theorem download_emojis_submission_order:
  assumes "can_mkdir env d" and "load_emoji_list env w el = Mapping c"
  shows "fst (download_emojis env el d sched w) =
           (case first_raised (map (task_raises env) c) of
              None \<Rightarrow> Inr (List.map_filter (saved env d) c)
            | Some e \<Rightarrow> Inl (Uncaught e))
       \<and> (\<forall>downloaded. fst (download_emojis env el d sched w) = Inr downloaded \<longrightarrow>
             downloaded = List.map_filter (saved env d) c
           \<and> map fst downloaded
               = map fst (filter (\<lambda>kv. image_entry env kv \<and> \<not> download_fails env d kv) c))
       \<and> fst (download_emojis env el d sched' w) = fst (download_emojis env el d sched w)"
proof -
  note r = download_emojis_result [OF assms]
  have "filter (\<lambda>kv. saved env d kv \<noteq> None) c
      = filter (\<lambda>kv. image_entry env kv \<and> \<not> download_fails env d kv) c"
    by (intro filter_cong refl) (rule saved_Some_iff)
  then have names: "map fst (List.map_filter (saved env d) c)
      = map fst (filter (\<lambda>kv. image_entry env kv \<and> \<not> download_fails env d kv) c)"
    by (simp only: map_fst_map_filter_saved)
  have 1: "fst (download_emojis env el d sched w) =
      (case first_raised (map (task_raises env) c) of
         None \<Rightarrow> Inr (List.map_filter (saved env d) c)
       | Some e \<Rightarrow> Inl (Uncaught e))"
    by (rule r)
  have 2: "\<forall>downloaded. fst (download_emojis env el d sched w) = Inr downloaded \<longrightarrow>
      downloaded = List.map_filter (saved env d) c
      \<and> map fst downloaded
          = map fst (filter (\<lambda>kv. image_entry env kv \<and> \<not> download_fails env d kv) c)"
    using names by (auto simp: r [of sched] split: option.splits)
  have 3: "fst (download_emojis env el d sched' w) = fst (download_emojis env el d sched w)"
    by (simp add: r)
  show ?thesis by (rule conjI [OF 1 conjI [OF 2 3]])
qed

theorem download_emojis_submission_order_witness:
  "fst (download_emojis flaky_env (ListMapping three_emojis) ''out'' [2, 0, 1] empty_world)
     = Inr [(''a'', ''out/a.png''), (''c'', ''out/c.jpg'')]
   \<and> fst (download_emojis flaky_env (ListMapping three_emojis) ''out'' [0, 1, 2] empty_world)
     = Inr [(''a'', ''out/a.png''), (''c'', ''out/c.jpg'')]
   \<and> fst (download_emojis flaky_env (ListMapping bad_catalog) ''out'' [1, 0] empty_world)
     = Inl (Uncaught ValueError)"
proof -
  have a: "saved flaky_env ''out'' (''a'', Str ''https://x/a.png'') = Some (''a'', ''out/a.png'')"
    by code_simp
  have b: "saved flaky_env ''out'' (''b'', Str ''https://x/b.gif'') = None"
    by code_simp
  have c: "saved flaky_env ''out'' (''c'', Str ''https://x/c.jpg'') = Some (''c'', ''out/c.jpg'')"
    by code_simp
  have n: "first_raised (map (task_raises flaky_env) three_emojis) = None"
    by code_simp
  have e: "first_raised (map (task_raises flaky_env) bad_catalog) = Some ValueError"
    by code_simp
  have m: "can_mkdir flaky_env ''out''"
    by (simp add: flaky_env_def)
  have l: "load_emoji_list flaky_env empty_world (ListMapping three_emojis) = Mapping three_emojis"
    by (simp add: load_emoji_list_def)
  have l': "load_emoji_list flaky_env empty_world (ListMapping bad_catalog) = Mapping bad_catalog"
    by (simp add: load_emoji_list_def)
  have x: "List.map_filter (saved flaky_env ''out'') three_emojis
      = [(''a'', ''out/a.png''), (''c'', ''out/c.jpg'')]"
    using a b c by (simp add: three_emojis_def List.map_filter_simps)
  note T = download_emojis_submission_order [OF m l, of "[2, 0, 1]" "[0, 1, 2]"]
  from T have "fst (download_emojis flaky_env (ListMapping three_emojis) ''out'' [2, 0, 1] empty_world)
      = (case first_raised (map (task_raises flaky_env) three_emojis) of
           None \<Rightarrow> Inr (List.map_filter (saved flaky_env ''out'') three_emojis)
         | Some e \<Rightarrow> Inl (Uncaught e))"
    by (elim conjE)
  then have 1: "fst (download_emojis flaky_env (ListMapping three_emojis) ''out'' [2, 0, 1] empty_world)
        = Inr [(''a'', ''out/a.png''), (''c'', ''out/c.jpg'')]"
    by (simp only: n x option.case)
  from T have "fst (download_emojis flaky_env (ListMapping three_emojis) ''out'' [0, 1, 2] empty_world)
      = fst (download_emojis flaky_env (ListMapping three_emojis) ''out'' [2, 0, 1] empty_world)"
    by (elim conjE)
  with 1 have 2: "fst (download_emojis flaky_env (ListMapping three_emojis) ''out'' [0, 1, 2] empty_world)
        = Inr [(''a'', ''out/a.png''), (''c'', ''out/c.jpg'')]"
    by simp
  note T' = download_emojis_submission_order [OF m l', of "[1, 0]" "[]"]
  from T' have "fst (download_emojis flaky_env (ListMapping bad_catalog) ''out'' [1, 0] empty_world)
      = (case first_raised (map (task_raises flaky_env) bad_catalog) of
           None \<Rightarrow> Inr (List.map_filter (saved flaky_env ''out'') bad_catalog)
         | Some e \<Rightarrow> Inl (Uncaught e))"
    by (elim conjE)
  then have 3: "fst (download_emojis flaky_env (ListMapping bad_catalog) ''out'' [1, 0] empty_world)
        = Inl (Uncaught ValueError)"
    by (simp only: e option.case)
  show ?thesis by (rule conjI [OF 1 conjI [OF 2 3]])
qed




subsection \<open>Claims about \<open>download_emoji\<close>\<close>

lemma os_path_join_plain:
  "a \<noteq> [] \<Longrightarrow> last a \<noteq> CHR ''/'' \<Longrightarrow> \<not> startswith b ''/'' \<Longrightarrow> os_path_join a b = a @ ''/'' @ b"
  by (simp add: os_path_join_def)

lemma splitext_ext_dot: "splitext_ext p \<noteq> [] \<Longrightarrow> hd (splitext_ext p) = CHR ''.''"
proof -
  assume ne: "splitext_ext p \<noteq> []"
  then have gt: "rfind p (CHR ''.'') > rfind p (CHR ''/'')"
    and ext: "splitext_ext p = drop (nat (rfind p (CHR ''.''))) p"
    by (auto simp: splitext_ext_def Let_def split: if_splits)
  have "CHR ''.'' \<in> set p"
  proof (rule ccontr)
    assume "CHR ''.'' \<notin> set p"
    then have "rfind p (CHR ''.'') = - 1" by (rule rfind_absent)
    with gt rfind_ge [of p "CHR ''/''"] show False by simp
  qed
  then have "\<exists>pre suf. p = pre @ CHR ''.'' # suf \<and> CHR ''.'' \<notin> set suf"
    by (rule split_list_last)
  then obtain pre suf where ps: "p = pre @ CHR ''.'' # suf" and "CHR ''.'' \<notin> set suf"
    by (elim exE conjE)
  then have "rfind p (CHR ''.'') = int (length pre)"
    by (simp add: rfind_last)
  with ext have "splitext_ext p = drop (length pre) p"
    by simp
  also have "\<dots> = CHR ''.'' # suf"
    by (simp add: ps)
  finally show ?thesis by simp
qed

lemma name_ext_no_slash:
  assumes "\<not> startswith n ''/''" and "e \<noteq> []" and "hd e = CHR ''.''"
  shows "\<not> startswith (n @ e) ''/''"
proof (cases n)
  case Nil
  with assms(2,3) show ?thesis by (cases e) (simp_all add: startswith_def)
next
  case (Cons c cs)
  with assms(1) show ?thesis by (simp add: startswith_def)
qed

text \<open>
  The name \<open>/tmp/evil\<close>, which a list file can hold: \<open>os.path.join\<close> drops the
  directory when its second argument begins with a slash, so the file is
  \<open>/tmp/evil.png\<close> and not \<open>emoji_downloads//tmp/evil.png\<close>.
\<close>

theorem download_emoji_file_path_counterexample:
  "fst (download_emoji edge_env ''/tmp/evil'' (Str ''https://emoji.slack-edge.com/T0/party/image'')
          ''emoji_downloads'' empty_world)
     = Inr (Some (''/tmp/evil'', ''/tmp/evil.png''))
   \<and> ''/tmp/evil.png'' \<noteq> ''emoji_downloads'' @ ''/'' @ ''/tmp/evil'' @ ''.png''"
proof -
  have "splitext_ext ''/T0/party/image'' = []"
    by (rule splitext_ext_no_dot) (simp add: last_segment_def)
  then show ?thesis
    by (simp add: download_emoji_def edge_env_def startswith_def response_ok_def Let_def
        os_path_join_def)
qed

text \<open>
  Claim C6, amended. When \<open>download_emoji\<close> downloads an entry, the file it writes and
  returns is \<open>os.path.join(output_dir, name + ext)\<close>; this is \<open>output_dir/name.ext\<close>
  when the directory is not empty and has no trailing slash and the name does not begin
  with a slash. \<open>ext\<close> is \<open>os.path.splitext\<close> of the path of the URL: for a last
  segment \<open>base.e\<close> (where \<open>base\<close> is not made of dots only) it is \<open>.e\<close>, and when the
  last segment has no dot (a path that ends in \<open>/image\<close>) the extension is \<open>.png\<close>.
  The file holds the body of the response.
\<close>

theorem download_emoji_file_path:
  assumes "download_emoji env n (Str u) d w = (Inr (Some r), w')"
  shows "\<exists>path.
           url_path env u = Some path
         \<and> fst r = n
         \<and> snd r = os_path_join d
             (n @ (if splitext_ext path = [] then ''.png'' else splitext_ext path))
         \<and> (\<exists>resp. http_get env u None = Inr resp \<and> files w' (snd r) = Some (content resp))
         \<and> (CHR ''.'' \<notin> set (last_segment path) \<longrightarrow> snd r = os_path_join d (n @ ''.png''))
         \<and> (\<forall>dir base e.
              path = dir @ base @ CHR ''.'' # e
              \<and> (dir = [] \<or> last dir = CHR ''/'')
              \<and> CHR ''/'' \<notin> set base \<and> (\<exists>c \<in> set base. c \<noteq> CHR ''.'')
              \<and> CHR ''/'' \<notin> set e \<and> CHR ''.'' \<notin> set e \<longrightarrow>
              snd r = os_path_join d (n @ CHR ''.'' # e))
         \<and> (d \<noteq> [] \<and> last d \<noteq> CHR ''/'' \<and> \<not> startswith n ''/'' \<longrightarrow>
              snd r = d @ ''/'' @ n
                @ (if splitext_ext path = [] then ''.png'' else splitext_ext path))"
proof -
  from assms obtain path where path: "url_path env u = Some path"
    by (auto simp: download_emoji_def split: if_splits option.splits)
  let ?ext = "if splitext_ext path = [] then ''.png'' else splitext_ext path"
  from assms path have r: "r = (n, os_path_join d (n @ ?ext))"
    by (auto simp: download_emoji_def Let_def split: if_splits sum.splits)
  from assms path obtain resp where resp: "http_get env u None = Inr resp"
      "w' = write_file (os_path_join d (n @ ?ext)) (content resp) (emit (Get u) w)"
    by (auto simp: download_emoji_def Let_def split: if_splits sum.splits)
  have 1: "fst r = n" and 2: "snd r = os_path_join d (n @ ?ext)"
    using r by simp_all
  have 3: "\<exists>resp. http_get env u None = Inr resp \<and> files w' (snd r) = Some (content resp)"
    using resp 2 by (simp add: write_file_def)
  have 4: "CHR ''.'' \<notin> set (last_segment path) \<longrightarrow> snd r = os_path_join d (n @ ''.png'')"
    using 2 by (simp add: splitext_ext_no_dot)
  have 5: "\<forall>dir base e.
      path = dir @ base @ CHR ''.'' # e
      \<and> (dir = [] \<or> last dir = CHR ''/'')
      \<and> CHR ''/'' \<notin> set base \<and> (\<exists>c \<in> set base. c \<noteq> CHR ''.'')
      \<and> CHR ''/'' \<notin> set e \<and> CHR ''.'' \<notin> set e \<longrightarrow>
      snd r = os_path_join d (n @ CHR ''.'' # e)"
  proof (intro allI impI, elim conjE)
    fix dir base e
    assume p: "path = dir @ base @ CHR ''.'' # e"
      and a: "dir = [] \<or> last dir = CHR ''/''" "CHR ''/'' \<notin> set base"
        "\<exists>c \<in> set base. c \<noteq> CHR ''.''" "CHR ''/'' \<notin> set e" "CHR ''.'' \<notin> set e"
    have "splitext_ext (dir @ base @ CHR ''.'' # e) = CHR ''.'' # e"
      using a by (rule splitext_ext_suffix)
    then show "snd r = os_path_join d (n @ CHR ''.'' # e)"
      using 2 p by simp
  qed
  have 6: "d \<noteq> [] \<and> last d \<noteq> CHR ''/'' \<and> \<not> startswith n ''/'' \<longrightarrow>
      snd r = d @ ''/'' @ n @ ?ext"
  proof (intro impI, elim conjE)
    assume a: "d \<noteq> []" "last d \<noteq> CHR ''/''" "\<not> startswith n ''/''"
    have "?ext \<noteq> [] \<and> hd ?ext = CHR ''.''"
      using splitext_ext_dot [of path] by simp
    then have "\<not> startswith (n @ ?ext) ''/''"
      using a(3) name_ext_no_slash [of n ?ext] by blast
    with a(1,2) have "os_path_join d (n @ ?ext) = d @ ''/'' @ n @ ?ext"
      by (rule os_path_join_plain)
    with 2 show "snd r = d @ ''/'' @ n @ ?ext" by (rule trans)
  qed
  show ?thesis
    by (rule exI [of _ path])
      (rule conjI [OF path conjI [OF 1 conjI [OF 2 conjI [OF 3 conjI [OF 4 conjI [OF 5 6]]]]]])
qed

theorem download_emoji_file_path_witness:
  "fst (download_emoji edge_env ''party'' (Str ''https://emoji.slack-edge.com/T0/party/image'')
          ''emoji_downloads'' empty_world)
     = Inr (Some (''party'', ''emoji_downloads/party.png''))
   \<and> files (snd (download_emoji edge_env ''party'' (Str ''https://emoji.slack-edge.com/T0/party/image'')
          ''emoji_downloads'' empty_world)) ''emoji_downloads/party.png'' = Some ''PNG''"
proof -
  let ?u = "''https://emoji.slack-edge.com/T0/party/image''"
  obtain r w' where rw: "download_emoji edge_env ''party'' (Str ?u) ''emoji_downloads'' empty_world = (r, w')"
    by (cases "download_emoji edge_env ''party'' (Str ?u) ''emoji_downloads'' empty_world")
  have "\<exists>r'. fst (download_emoji edge_env ''party'' (Str ?u) ''emoji_downloads'' empty_world)
      = Inr (Some r')"
    by (simp add: download_emoji_def edge_env_def startswith_def response_ok_def Let_def)
  with rw obtain r' where r': "r = Inr (Some r')" by auto
  have eq: "download_emoji edge_env ''party'' (Str ?u) ''emoji_downloads'' empty_world
      = (Inr (Some r'), w')"
    using rw r' by simp
  from download_emoji_file_path [OF eq] obtain path where
    T: "url_path edge_env ?u = Some path" "fst r' = ''party''"
      "\<exists>resp. http_get edge_env ?u None = Inr resp \<and> files w' (snd r') = Some (content resp)"
      "''emoji_downloads'' \<noteq> [] \<and> last ''emoji_downloads'' \<noteq> CHR ''/'' \<and> \<not> startswith ''party'' ''/'' \<longrightarrow>
         snd r' = ''emoji_downloads'' @ ''/'' @ ''party''
           @ (if splitext_ext path = [] then ''.png'' else splitext_ext path)"
    by (elim exE conjE) simp
  from T(1) have p: "path = ''/T0/party/image''"
    by (simp add: edge_env_def)
  have "splitext_ext ''/T0/party/image'' = []"
    by (rule splitext_ext_no_dot) (simp add: last_segment_def)
  with T(4) p have b: "snd r' = ''emoji_downloads/party.png''"
    by (simp add: startswith_def)
  have get: "http_get edge_env ?u None
      = Inr \<lparr>status_code = 200, body_text = [], json = None, content = ''PNG''\<rparr>"
    by (simp add: edge_env_def)
  with T(3) b have c: "files w' ''emoji_downloads/party.png'' = Some ''PNG''"
    by auto
  have "r' = (''party'', ''emoji_downloads/party.png'')"
    using T(2) b by (cases r') simp
  with eq c show ?thesis by simp
qed















end
